theory Spec2Isabelle
  imports Complex_Main "HOL-Library.AList" "HOL-Library.Multiset" "HOL-Library.List_Lexorder" "HOL-Library.Product_Lexorder"
begin

section \<open>Python values shared by the three tools\<close>

text \<open>
  A Python \<open>str\<close> is a sequence of Unicode code points, so a character is modelled by its
  code point (what \<open>ord\<close> returns) and a string by a list of code points. Literals of the
  source are written \<open>str ''...''\<close>. Python's \<open>int\<close> is unbounded and is modelled by \<open>int\<close>.
\<close>

type_synonym pychar = nat
type_synonym pystr = "pychar list"

abbreviation cp :: "char \<Rightarrow> pychar" where
  "cp \<equiv> of_char"

definition str :: "string \<Rightarrow> pystr" where
  "str s = map cp s"

datatype py_error = ZeroDivisionError | IndexError | ValueError

text \<open>The subscript \<open>xs[i]\<close> of a list or string: positions \<open>0 .. len - 1\<close> from the front,
  \<open>-1 .. -len\<close> from the back, anything else raises \<open>IndexError\<close>.\<close>

definition py_index :: "'a list \<Rightarrow> int \<Rightarrow> py_error + 'a" where
  "py_index xs i =
     (if 0 \<le> i \<and> i < int (length xs) then Inr (xs ! nat i)
      else if i < 0 \<and> - int (length xs) \<le> i then Inr (xs ! nat (int (length xs) + i))
      else Inl IndexError)"

text \<open>\<open>print(s)\<close> emits the text and a line feed; \<open>print(s, end="")\<close> emits the text only.
  A console is the list of the texts emitted, one entry per call of \<open>print\<close>.\<close>

definition println :: "pystr \<Rightarrow> pystr" where
  "println s = s @ [10]"

text \<open>The decimal text of an integer, as an f-string field \<open>{n}\<close> renders it.\<close>

fun dec_digits :: "nat \<Rightarrow> pystr" where
  "dec_digits n = (if n < 10 then [48 + n] else dec_digits (n div 10) @ [48 + n mod 10])"

declare dec_digits.simps [simp del]

definition str_int :: "int \<Rightarrow> pystr" where
  "str_int i = (if i < 0 then cp CHR ''-'' # dec_digits (nat (- i)) else dec_digits (nat i))"

text \<open>\<open>"\n".join(lines) + "\n"\<close>, the way every report is assembled.\<close>

fun join_lines :: "pystr list \<Rightarrow> pystr" where
  "join_lines [] = []"
| "join_lines [l] = l"
| "join_lines (l # ls) = l @ [10] @ join_lines ls"

text \<open>
  \<open>str.isspace\<close>, \<open>str.strip()\<close> and \<open>str.split()\<close> of CPython 3: the white space
  characters are the code points below.
\<close>

definition isspace :: "pychar \<Rightarrow> bool" where
  "isspace c \<longleftrightarrow>
     (9 \<le> c \<and> c \<le> 13) \<or> (28 \<le> c \<and> c \<le> 32) \<or> c = 133 \<or> c = 160 \<or> c = 5760 \<or>
     (8192 \<le> c \<and> c \<le> 8202) \<or> c = 8232 \<or> c = 8233 \<or> c = 8239 \<or> c = 8287 \<or> c = 12288"

definition strip :: "pystr \<Rightarrow> pystr" where
  "strip s = rev (dropWhile isspace (rev (dropWhile isspace s)))"

fun split_acc :: "pystr \<Rightarrow> pystr \<Rightarrow> pystr list" where
  "split_acc [] cur = (if cur = [] then [] else [cur])"
| "split_acc (c # cs) cur =
     (if isspace c then (if cur = [] then split_acc cs [] else cur # split_acc cs [])
      else split_acc cs (cur @ [c]))"

definition split :: "pystr \<Rightarrow> pystr list" where
  "split s = split_acc s []"

text \<open>
  The run-time environment of a tool: \<open>sys.argv\<close>, what \<open>open(path, "r")\<close> does for each
  path (the lines the file iterator yields, each with its line terminator), and the elapsed
  time the two readings of \<open>time.perf_counter()\<close> give. A run ends by \<open>sys.exit(code)\<close>,
  by an exception nobody catches, or by reaching the end of \<open>main\<close>. The two failures of
  \<open>open\<close> the tools handle are modelled; other failures of the operating system (a
  directory in place of the file, bytes that are not UTF-8, a results file that cannot be
  written) are outside the model.
\<close>

datatype file_open = FileNotFoundError | PermissionError | Opened "pystr list"

datatype ending = Exited int | Uncaught py_error | Completed

record run =
  console :: "pystr list"
  results_file :: "pystr option"
  ending :: ending

text \<open>A function that may leave through \<open>sys.exit\<close> instead of returning.\<close>

datatype 'a exit_or = SysExit int | Returned 'a

subsection \<open>Floats\<close>

text \<open>
  A Python \<open>float\<close> is an IEEE 754 binary64 value. A finite float is modelled by the real
  number it denotes and the others by \<open>PInf\<close>, \<open>NInf\<close> and \<open>NaN\<close>; the sign of a zero, which
  shows in printed text only, is not modelled.
\<close>

datatype pyfloat = Fin real | PInf | NInf | NaN

text \<open>
  Rounding to the nearest binary64 value, ties to the even significand. The binary64 values
  are the multiples \<open>m * q\<close> of a quantum \<open>q = 2 ^ j / 2 ^ 1074\<close> with \<open>j \<le> 2045\<close> and
  \<open>\<bar>m\<bar> < 2 ^ 53\<close>. The quantum of a magnitude \<open>a\<close> is the least one with \<open>a < 2 ^ 53 * q\<close>
  (\<open>2 ^ -1074\<close> for the subnormal values and the first binade), \<open>rne\<close> rounds the quotient
  to an integer, half-way cases to the even one, and a magnitude of at least
  \<open>2 ^ 1024 - 2 ^ 970\<close>, half a quantum above the largest finite value, rounds to an infinity.
\<close>

definition rne :: "real \<Rightarrow> int" where
  "rne y =
     (let f = \<lfloor>y\<rfloor>; r = y - of_int f
      in if r < 1 / 2 then f else if 1 / 2 < r then f + 1 else if even f then f else f + 1)"

definition scale64 :: real where
  "scale64 = 2 ^ 1074"

function qexp_from :: "real \<Rightarrow> nat \<Rightarrow> nat" where
  "qexp_from a j =
     (if 2045 \<le> j \<or> a * scale64 < 2 ^ (j + 53) then j else qexp_from a (Suc j))"
  by pat_completeness auto

termination
  by (relation "measure (\<lambda>(a, j). 2045 - j)") auto

declare qexp_from.simps [simp del]

definition quantum :: "real \<Rightarrow> real" where
  "quantum a = 2 ^ qexp_from a 0 / scale64"

definition overflow_threshold :: real where
  "overflow_threshold = 2 ^ 1024 - 2 ^ 970"

definition round64 :: "real \<Rightarrow> pyfloat" where
  "round64 x =
     (if overflow_threshold \<le> \<bar>x\<bar> then (if x < 0 then NInf else PInf)
      else Fin (sgn x * (quantum \<bar>x\<bar> * of_int (rne (\<bar>x\<bar> / quantum \<bar>x\<bar>)))))"

text \<open>
  The operations \<open>+\<close>, \<open>-\<close>, \<open>*\<close> and \<open>/\<close> on floats and \<open>math.sqrt\<close>: the exact result,
  rounded. An overflow yields an infinity without raising; only a zero divisor and the
  square root of a negative number raise.
\<close>

fun fneg :: "pyfloat \<Rightarrow> pyfloat" where
  "fneg (Fin a) = Fin (- a)"
| "fneg PInf = NInf"
| "fneg NInf = PInf"
| "fneg NaN = NaN"

fun fadd :: "pyfloat \<Rightarrow> pyfloat \<Rightarrow> pyfloat" where
  "fadd (Fin a) (Fin b) = round64 (a + b)"
| "fadd NaN y = NaN"
| "fadd x NaN = NaN"
| "fadd PInf NInf = NaN"
| "fadd NInf PInf = NaN"
| "fadd PInf y = PInf"
| "fadd x PInf = PInf"
| "fadd NInf y = NInf"
| "fadd x NInf = NInf"

definition fsub :: "pyfloat \<Rightarrow> pyfloat \<Rightarrow> pyfloat" where
  "fsub x y = fadd x (fneg y)"

fun fmul :: "pyfloat \<Rightarrow> pyfloat \<Rightarrow> pyfloat" where
  "fmul (Fin a) (Fin b) = round64 (a * b)"
| "fmul NaN y = NaN"
| "fmul x NaN = NaN"
| "fmul (Fin a) y = (if a = 0 then NaN else if (a < 0) \<noteq> (y = NInf) then NInf else PInf)"
| "fmul x (Fin b) = (if b = 0 then NaN else if (b < 0) \<noteq> (x = NInf) then NInf else PInf)"
| "fmul x y = (if x = y then PInf else NInf)"

fun fdiv :: "pyfloat \<Rightarrow> pyfloat \<Rightarrow> py_error + pyfloat" where
  "fdiv x (Fin b) =
     (if b = 0 then Inl ZeroDivisionError
      else (case x of
              Fin a \<Rightarrow> Inr (round64 (a / b))
            | PInf \<Rightarrow> Inr (if b < 0 then NInf else PInf)
            | NInf \<Rightarrow> Inr (if b < 0 then PInf else NInf)
            | NaN \<Rightarrow> Inr NaN))"
| "fdiv NaN y = Inr NaN"
| "fdiv x NaN = Inr NaN"
| "fdiv (Fin a) y = Inr (Fin 0)"
| "fdiv x y = Inr NaN"

fun fsqrt :: "pyfloat \<Rightarrow> py_error + pyfloat" where
  "fsqrt (Fin a) = (if a < 0 then Inl ValueError else Inr (round64 (sqrt a)))"
| "fsqrt PInf = Inr PInf"
| "fsqrt NInf = Inl ValueError"
| "fsqrt NaN = Inr NaN"

text \<open>
  The conversions between floats and text belong to the interpreter and are parameters of
  the model: \<open>float(s)\<close> (which raises \<open>ValueError\<close>, or yields a finite value, or yields an
  infinity or a NaN), the text of a float in an f-string field \<open>{x}\<close>, and the text of a
  finite float in a field \<open>{x:.6f}\<close>.
\<close>

datatype float_parse = NotANumber | NonFinite | Finite real

record float_builtins =
  float_of_str :: "pystr \<Rightarrow> float_parse"
  repr_float :: "pyfloat \<Rightarrow> pystr"
  fixed6 :: "real \<Rightarrow> pystr"

text \<open>
  \<open>str.isalnum\<close> and \<open>str.lower\<close> on one character follow the Unicode character database of
  the interpreter and are parameters as well; \<open>lower\<close> yields a string, which for one code
  point (U+0130) has two characters.
\<close>

record unicode_db =
  isalnum :: "pychar \<Rightarrow> bool"
  lower :: "pychar \<Rightarrow> pystr"

text \<open>A \<open>dict\<close> keeps its keys in insertion order, so it is an association list with distinct
  keys: \<open>d[k] = v\<close> is \<open>AList.update k v d\<close> (in place for a known key, at the end for a new
  one), \<open>d.get(k, dflt)\<close> is:\<close>

definition dict_get :: "('k \<times> 'v) list \<Rightarrow> 'k \<Rightarrow> 'v \<Rightarrow> 'v" where
  "dict_get d k dflt = (case map_of d k of None \<Rightarrow> dflt | Some v \<Rightarrow> v)"

text \<open>\<open>max(xs)\<close> raises \<open>ValueError\<close> on an empty collection.\<close>

fun py_max :: "int list \<Rightarrow> py_error + int" where
  "py_max [] = Inl ValueError"
| "py_max (x # xs) = Inr (foldl max x xs)"

text \<open>The slice \<open>xs[:k]\<close>.\<close>

definition slice_to :: "'a list \<Rightarrow> int \<Rightarrow> 'a list" where
  "slice_to xs k = (if 0 \<le> k then take (nat k) xs else take (nat (int (length xs) + k)) xs)"

section \<open>convert_numbers.py\<close>

definition HEX_DIGITS :: pystr where
  "HEX_DIGITS = str ''0123456789ABCDEF''"

subsection \<open>parse_int_strict\<close>

text \<open>The \<open>for ch in text[start_idx:]\<close> loop; \<open>None\<close> is its early return at a non-digit.\<close>

fun scan_digits :: "pystr \<Rightarrow> int \<Rightarrow> int option" where
  "scan_digits [] value = Some value"
| "scan_digits (ch # rest) value =
     (if ch < cp CHR ''0'' \<or> ch > cp CHR ''9'' then None
      else scan_digits rest (value * 10 + (int ch - int (cp CHR ''0''))))"

text \<open>The result is the texts printed and the pair \<open>(success, value)\<close>. In the second and
  third message only the first literal is an f-string, so \<open>{text}\<close> is printed as it stands.\<close>

definition parse_int_strict :: "pystr \<Rightarrow> int \<Rightarrow> pystr list \<times> bool \<times> int" where
  "parse_int_strict text line_no =
     (if text = [] then
        ([println (str ''[ERROR] Line '' @ str_int line_no @
                   str '': empty/blank line. Skipping.'')], False, 0)
      else
        let (sign, start_idx) =
              (if hd text = cp CHR ''+'' then (1, 1)
               else if hd text = cp CHR ''-'' then (- 1, 1)
               else (1 :: int, 0 :: nat))
        in if start_idx = length text then
             ([println (str ''[ERROR] Line '' @ str_int line_no @ str '': '' @
                        str ''sign without digits '{text}'. Skipping.'')], False, 0)
           else
             (case scan_digits (drop start_idx text) 0 of
                None \<Rightarrow>
                  ([println (str ''[ERROR] Line '' @ str_int line_no @ str '': '' @
                             str ''not an integer '{text}'. Skipping.'')], False, 0)
              | Some value \<Rightarrow> ([], True, sign * value)))"

subsection \<open>convert_positive_to_base, to_binary, to_hex\<close>

text \<open>
  The \<open>while value > 0\<close> loop. Python's \<open>%\<close> and \<open>//\<close> on integers are floor division, as
  \<open>mod\<close> and \<open>div\<close> on \<open>int\<close> are; a zero base raises. With base 1 the loop never ends, which is
  the value \<open>None\<close>.
\<close>

partial_function (option) convert_loop ::
  "int \<Rightarrow> int \<Rightarrow> pystr \<Rightarrow> pystr \<Rightarrow> (py_error + pystr) option" where
  "convert_loop value base digits result_chars =
     (if value > 0 then
        (if base = 0 then Some (Inl ZeroDivisionError)
         else (case py_index digits (value mod base) of
                 Inl e \<Rightarrow> Some (Inl e)
               | Inr d \<Rightarrow> convert_loop (value div base) base digits (result_chars @ [d])))
      else Some (Inr result_chars))"

declare convert_loop.simps [code]

definition convert_positive_to_base :: "int \<Rightarrow> int \<Rightarrow> pystr \<Rightarrow> (py_error + pystr) option" where
  "convert_positive_to_base n base digits =
     (if n = 0 then Some (Inr (str ''0''))
      else map_option (map_sum id rev) (convert_loop n base digits []))"

definition prepend :: "pystr \<Rightarrow> (py_error + pystr) option \<Rightarrow> (py_error + pystr) option" where
  "prepend p r = map_option (map_sum id (\<lambda>s. p @ s)) r"

definition to_binary :: "int \<Rightarrow> (py_error + pystr) option" where
  "to_binary n =
     (if n < 0 then prepend (str ''-'') (convert_positive_to_base (- n) 2 (str ''01''))
      else convert_positive_to_base n 2 (str ''01''))"

definition to_hex :: "int \<Rightarrow> (py_error + pystr) option" where
  "to_hex n =
     (if n < 0 then prepend (str ''-'') (convert_positive_to_base (- n) 16 HEX_DIGITS)
      else convert_positive_to_base n 16 HEX_DIGITS)"

subsection \<open>read_numbers, build_report, main\<close>

fun scan_int_lines ::
  "pystr list \<Rightarrow> int \<Rightarrow> pystr list \<Rightarrow> int list \<Rightarrow> int \<Rightarrow> pystr list \<times> int list \<times> int" where
  "scan_int_lines [] line_no out numbers invalid_count = (out, numbers, invalid_count)"
| "scan_int_lines (raw_line # rest) line_no out numbers invalid_count =
     (let line = strip raw_line;
          (msgs, ok, value) = parse_int_strict line line_no
      in if ok then scan_int_lines rest (line_no + 1) (out @ msgs) (numbers @ [value]) invalid_count
         else scan_int_lines rest (line_no + 1) (out @ msgs) numbers (invalid_count + 1))"

definition read_numbers ::
  "(pystr \<Rightarrow> file_open) \<Rightarrow> pystr \<Rightarrow> pystr list \<times> (int list \<times> int) exit_or" where
  "read_numbers fs filepath =
     (case fs filepath of
        FileNotFoundError \<Rightarrow>
          ([println (str ''[ERROR] File not found: '' @ filepath)], SysExit 1)
      | PermissionError \<Rightarrow>
          ([println (str ''[ERROR] Permission denied: '' @ filepath)], SysExit 1)
      | Opened file \<Rightarrow>
          (let (out, numbers, invalid_count) = scan_int_lines file 1 [] [] 0
           in (out, Returned (numbers, invalid_count))))"

definition RESULTS_FILENAME_convert :: pystr where
  "RESULTS_FILENAME_convert = str ''ConvertionResults.txt''"

text \<open>The \<open>for n in shown\<close> loop of \<open>build_report\<close>: one line per number.\<close>

fun conversion_lines :: "int list \<Rightarrow> (py_error + pystr list) option" where
  "conversion_lines [] = Some (Inr [])"
| "conversion_lines (n # shown) =
     (case to_binary n of
        None \<Rightarrow> None
      | Some (Inl e) \<Rightarrow> Some (Inl e)
      | Some (Inr b) \<Rightarrow>
          (case to_hex n of
             None \<Rightarrow> None
           | Some (Inl e) \<Rightarrow> Some (Inl e)
           | Some (Inr h) \<Rightarrow>
               (case conversion_lines shown of
                  None \<Rightarrow> None
                | Some (Inl e) \<Rightarrow> Some (Inl e)
                | Some (Inr ls) \<Rightarrow>
                    Some (Inr ((str_int n @ str '' -> '' @ b @ str '' -> '' @ h) # ls)))))"

definition build_report ::
  "float_builtins \<Rightarrow> int list \<Rightarrow> int \<Rightarrow> real \<Rightarrow> int option \<Rightarrow> (py_error + pystr) option" where
  "build_report py numbers invalid_count elapsed_seconds console_limit =
     (let head =
            [str ''=== Conversion Results (Decimal -> Binary / Hex) ==='',
             str ''Valid numbers: '' @ str_int (int (length numbers)),
             str ''Invalid lines skipped: '' @ str_int invalid_count,
             [],
             str ''Decimal -> Binary -> Hex'',
             str ''------------------------''];
          shown = (case console_limit of None \<Rightarrow> numbers | Some k \<Rightarrow> slice_to numbers k);
          note =
            (case console_limit of
               None \<Rightarrow> []
             | Some k \<Rightarrow>
                 if int (length numbers) > k then
                   [[],
                    str ''... showing first '' @ str_int k @ str '' of '' @
                    str_int (int (length numbers)) @ str '' items. '' @
                    str ''Full results were written to '' @ RESULTS_FILENAME_convert @ str ''.'']
                 else []);
          foot = [[], str ''Elapsed time (s): '' @ fixed6 py elapsed_seconds]
      in case conversion_lines shown of
           None \<Rightarrow> None
         | Some (Inl e) \<Rightarrow> Some (Inl e)
         | Some (Inr body) \<Rightarrow> Some (Inr (join_lines (head @ body @ note @ foot) @ [10])))"

text \<open>\<open>main\<close>: the console receives the report capped at 15 conversions, the results file
  the full one.\<close>

definition main_convert ::
  "float_builtins \<Rightarrow> pystr list \<Rightarrow> (pystr \<Rightarrow> file_open) \<Rightarrow> real \<Rightarrow> run option" where
  "main_convert py argv fs elapsed =
     (if length argv < 2 then
        Some \<lparr>console = [println (str ''Usage: python3 convertNumbers.py fileWithData.txt'')],
              results_file = None, ending = Exited 1\<rparr>
      else
        (case read_numbers fs (argv ! 1) of
           (out, SysExit code) \<Rightarrow>
             Some \<lparr>console = out, results_file = None, ending = Exited code\<rparr>
         | (out, Returned (numbers, invalid_count)) \<Rightarrow>
             (case build_report py numbers invalid_count elapsed None of
                None \<Rightarrow> None
              | Some (Inl e) \<Rightarrow>
                  Some \<lparr>console = out, results_file = None, ending = Uncaught e\<rparr>
              | Some (Inr report_full) \<Rightarrow>
                  (case build_report py numbers invalid_count elapsed (Some 15) of
                     None \<Rightarrow> None
                   | Some (Inl e) \<Rightarrow>
                       Some \<lparr>console = out, results_file = None, ending = Uncaught e\<rparr>
                   | Some (Inr report_console) \<Rightarrow>
                       Some \<lparr>console = out @ [report_console],
                             results_file = Some report_full, ending = Completed\<rparr>))))"

section \<open>compute_statistics.py\<close>

subsection \<open>read_numbers_from_file\<close>

text \<open>The body of the \<open>for line_no, raw_line in enumerate(file, start=1)\<close> loop, threading the
  console, \<open>numbers\<close> and \<open>invalid_count\<close>. Only the first literal of the second and third
  message is an f-string.\<close>

fun scan_float_lines ::
  "float_builtins \<Rightarrow> pystr list \<Rightarrow> int \<Rightarrow> pystr list \<Rightarrow> real list \<Rightarrow> int
     \<Rightarrow> pystr list \<times> real list \<times> int" where
  "scan_float_lines py [] line_no out numbers invalid_count = (out, numbers, invalid_count)"
| "scan_float_lines py (raw_line # rest) line_no out numbers invalid_count =
     (let line = strip raw_line in
      if line = [] then
        scan_float_lines py rest (line_no + 1)
          (out @ [println (str ''[ERROR] Line '' @ str_int line_no @
                           str '': empty/blank line. Skipping.'')])
          numbers (invalid_count + 1)
      else
        (case float_of_str py line of
           Finite value \<Rightarrow>
             scan_float_lines py rest (line_no + 1) out (numbers @ [value]) invalid_count
         | NonFinite \<Rightarrow>
             scan_float_lines py rest (line_no + 1)
               (out @ [println (str ''[ERROR] Line '' @ str_int line_no @ str '': '' @
                                str ''non-finite value '{line}'. '' @ str ''Skipping.'')])
               numbers (invalid_count + 1)
         | NotANumber \<Rightarrow>
             scan_float_lines py rest (line_no + 1)
               (out @ [println (str ''[ERROR] Line '' @ str_int line_no @ str '': '' @
                                str ''not a number '{line}'. Skipping.'')])
               numbers (invalid_count + 1)))"

definition read_numbers_from_file ::
  "float_builtins \<Rightarrow> (pystr \<Rightarrow> file_open) \<Rightarrow> pystr
     \<Rightarrow> pystr list \<times> (real list \<times> int) exit_or" where
  "read_numbers_from_file py fs filepath =
     (case fs filepath of
        FileNotFoundError \<Rightarrow>
          ([println (str ''[ERROR] File not found: '' @ filepath)], SysExit 1)
      | PermissionError \<Rightarrow>
          ([println (str ''[ERROR] No permissions to read the file: '' @ filepath)], SysExit 1)
      | Opened file \<Rightarrow>
          (let (out, numbers, invalid_count) = scan_float_lines py file 1 [] [] 0
           in (out, Returned (numbers, invalid_count))))"

subsection \<open>mean, median, mode, variance, std_deviation\<close>

text \<open>\<open>total / len(values)\<close> converts the length to a float and divides; a length of zero
  raises \<open>ZeroDivisionError\<close>.\<close>

definition mean :: "real list \<Rightarrow> py_error + pyfloat" where
  "mean values =
     (let total = foldl (\<lambda>total v. fadd total (Fin v)) (Fin 0) values
      in fdiv total (round64 (real (length values))))"

definition median :: "real list \<Rightarrow> py_error + pyfloat" where
  "median values =
     (let sorted_vals = sort values;
          n = int (length sorted_vals);
          mid = n div 2
      in if n mod 2 = 1 then map_sum id Fin (py_index sorted_vals mid)
         else (case py_index sorted_vals (mid - 1) of
                 Inl e \<Rightarrow> Inl e
               | Inr lo \<Rightarrow>
                   (case py_index sorted_vals mid of
                      Inl e \<Rightarrow> Inl e
                    | Inr hi \<Rightarrow> fdiv (fadd (Fin lo) (Fin hi)) (Fin 2))))"

text \<open>The first loop of \<open>mode\<close>: \<open>freq[value] = freq.get(value, 0) + 1\<close> for each value.\<close>

definition freq_table :: "real list \<Rightarrow> (real \<times> int) list" where
  "freq_table values =
     foldl (\<lambda>freq value. AList.update value (dict_get freq value 0 + 1) freq) [] values"

definition mode :: "real list \<Rightarrow> py_error + (real list \<times> int)" where
  "mode values =
     (let freq = freq_table values
      in case py_max (map snd freq) of
           Inl e \<Rightarrow> Inl e
         | Inr max_count \<Rightarrow>
             if max_count \<le> 1 then Inr ([], 1)
             else
               let modes = foldl (\<lambda>modes (value, n).
                                    if n = max_count then modes @ [value] else modes)
                             [] freq
               in Inr (sort modes, max_count))"

definition variance :: "real list \<Rightarrow> pyfloat \<Rightarrow> py_error + pyfloat" where
  "variance values avg =
     (let total = foldl (\<lambda>total value.
                           let diff = fsub (Fin value) avg in fadd total (fmul diff diff))
                    (Fin 0) values
      in fdiv total (round64 (real (length values))))"

definition std_deviation :: "pyfloat \<Rightarrow> py_error + pyfloat" where
  "std_deviation var = fsqrt var"

subsection \<open>StatsResult, format_results, main\<close>

record StatsResult =
  count :: int
  invalid_count :: int
  avg :: pyfloat
  med :: pyfloat
  modes :: "real list"
  mode_freq :: int
  var :: pyfloat
  std :: pyfloat
  elapsed_seconds :: real

text \<open>The text of a list of floats in an f-string field.\<close>

fun join_comma :: "pystr list \<Rightarrow> pystr" where
  "join_comma [] = []"
| "join_comma [l] = l"
| "join_comma (l # ls) = l @ str '', '' @ join_comma ls"

definition repr_list :: "float_builtins \<Rightarrow> real list \<Rightarrow> pystr" where
  "repr_list py xs = str ''['' @ join_comma (map (\<lambda>x. repr_float py (Fin x)) xs) @ str '']''"

definition format_results_stats :: "float_builtins \<Rightarrow> StatsResult \<Rightarrow> pystr" where
  "format_results_stats py result =
     join_lines
       ([str ''=== Statistical Results ==='',
         str ''Valid data count: '' @ str_int (count result),
         str ''Invalid data count: '' @ str_int (invalid_count result),
         [],
         str ''Mean: '' @ repr_float py (avg result),
         str ''Median: '' @ repr_float py (med result)] @
        [if modes result = [] then str ''Mode: No mode (all frequencies are 1).''
         else str ''Mode(s) (frequency '' @ str_int (mode_freq result) @ str ''): '' @
              repr_list py (modes result)] @
        [str ''Variance: '' @ repr_float py (var result),
         str ''Standard deviation: '' @ repr_float py (std result),
         [],
         str ''Elapsed time (s): '' @ fixed6 py (elapsed_seconds result)])
     @ [10]"

text \<open>The report of a run without any valid number.\<close>

definition no_data_report :: "float_builtins \<Rightarrow> int \<Rightarrow> real \<Rightarrow> pystr" where
  "no_data_report py invalid elapsed =
     str ''=== Statistical Results ==='' @ [10] @
     str ''No valid data to process.'' @ [10] @
     str ''Invalid data count: '' @ str_int invalid @ [10] @
     str ''Elapsed time (s): '' @ fixed6 py elapsed @ [10]"

text \<open>The aggregation of \<open>main\<close>, from \<open>avg = mean(numbers)\<close> to the \<open>StatsResult\<close>; an
  exception of an aggregator leaves it.\<close>

definition aggregate :: "real list \<Rightarrow> int \<Rightarrow> real \<Rightarrow> py_error + StatsResult" where
  "aggregate numbers invalid elapsed =
     (case mean numbers of
        Inl e \<Rightarrow> Inl e
      | Inr avg' \<Rightarrow>
     (case median numbers of
        Inl e \<Rightarrow> Inl e
      | Inr med' \<Rightarrow>
     (case mode numbers of
        Inl e \<Rightarrow> Inl e
      | Inr (modes', mode_freq') \<Rightarrow>
     (case variance numbers avg' of
        Inl e \<Rightarrow> Inl e
      | Inr var' \<Rightarrow>
     (case std_deviation var' of
        Inl e \<Rightarrow> Inl e
      | Inr std' \<Rightarrow>
          Inr \<lparr>count = int (length numbers), invalid_count = invalid, avg = avg',
               med = med', modes = modes', mode_freq = mode_freq', var = var', std = std',
               elapsed_seconds = elapsed\<rparr>)))))"

definition main_stats ::
  "float_builtins \<Rightarrow> pystr list \<Rightarrow> (pystr \<Rightarrow> file_open) \<Rightarrow> real \<Rightarrow> run" where
  "main_stats py argv fs elapsed =
     (if length argv < 2 then
        \<lparr>console = [println (str ''[ERROR] missing parameter: '' @
                              str ''python3 compute_statistics.py fileWithData.txt'')],
         results_file = None, ending = Exited 1\<rparr>
      else
        (case read_numbers_from_file py fs (argv ! 1) of
           (out, SysExit code) \<Rightarrow> \<lparr>console = out, results_file = None, ending = Exited code\<rparr>
         | (out, Returned (numbers, invalid)) \<Rightarrow>
             if numbers = [] then
               (let output = no_data_report py invalid elapsed
                in \<lparr>console = out @ [output], results_file = Some output, ending = Exited 0\<rparr>)
             else
               (case aggregate numbers invalid elapsed of
                  Inl e \<Rightarrow> \<lparr>console = out, results_file = None, ending = Uncaught e\<rparr>
                | Inr result \<Rightarrow>
                    (let output = format_results_stats py result
                     in \<lparr>console = out @ [output], results_file = Some output,
                         ending = Completed\<rparr>))))"

section \<open>word_count.py\<close>

subsection \<open>normalize_word\<close>

text \<open>The loop appends \<open>ch.lower()\<close> for each kept character; the result is the join of the
  pieces.\<close>

definition normalize_word :: "unicode_db \<Rightarrow> pystr \<Rightarrow> pystr" where
  "normalize_word db token =
     concat (foldl (\<lambda>cleaned_chars ch.
                      if isalnum db ch \<or> ch = cp (CHR 0x27) then cleaned_chars @ [lower db ch]
                      else cleaned_chars)
               [] token)"

subsection \<open>read_and_count_words\<close>

text \<open>The inner loop \<open>for token in tokens\<close>, threading the console, \<open>freq\<close>, \<open>total_words\<close>
  and \<open>invalid_items\<close>.\<close>

fun count_tokens ::
  "unicode_db \<Rightarrow> pystr list \<Rightarrow> int \<Rightarrow> pystr list \<Rightarrow> (pystr \<times> int) list \<Rightarrow> int \<Rightarrow> int
     \<Rightarrow> pystr list \<times> (pystr \<times> int) list \<times> int \<times> int" where
  "count_tokens db [] line_no out freq total_words invalid_items =
     (out, freq, total_words, invalid_items)"
| "count_tokens db (token # tokens) line_no out freq total_words invalid_items =
     (let word = normalize_word db token in
      if word = [] then
        count_tokens db tokens line_no
          (out @ [println (str ''[ERROR] Line '' @ str_int line_no @ str '': '' @
                           str ''invalid token '{token}'. '' @ str ''Skipping.'')])
          freq total_words (invalid_items + 1)
      else
        count_tokens db tokens line_no out
          (AList.update word (dict_get freq word 0 + 1) freq) (total_words + 1) invalid_items)"

text \<open>The outer loop over the lines of the file.\<close>

fun count_lines ::
  "unicode_db \<Rightarrow> pystr list \<Rightarrow> int \<Rightarrow> pystr list \<Rightarrow> (pystr \<times> int) list \<Rightarrow> int \<Rightarrow> int
     \<Rightarrow> pystr list \<times> (pystr \<times> int) list \<times> int \<times> int" where
  "count_lines db [] line_no out freq total_words invalid_items =
     (out, freq, total_words, invalid_items)"
| "count_lines db (raw_line # rest) line_no out freq total_words invalid_items =
     (let line = strip raw_line in
      if line = [] then
        count_lines db rest (line_no + 1)
          (out @ [println (str ''[ERROR] Line '' @ str_int line_no @ str '': '' @
                           str ''empty/blank line. Skipping.'')])
          freq total_words (invalid_items + 1)
      else
        (case count_tokens db (split line) line_no out freq total_words invalid_items of
           (out', freq', total_words', invalid_items') \<Rightarrow>
             count_lines db rest (line_no + 1) out' freq' total_words' invalid_items'))"

definition read_and_count_words ::
  "unicode_db \<Rightarrow> (pystr \<Rightarrow> file_open) \<Rightarrow> pystr
     \<Rightarrow> pystr list \<times> ((pystr \<times> int) list \<times> int \<times> int) exit_or" where
  "read_and_count_words db fs filepath =
     (case fs filepath of
        FileNotFoundError \<Rightarrow>
          ([println (str ''[ERROR] File not found: '' @ filepath)], SysExit 1)
      | PermissionError \<Rightarrow>
          ([println (str ''[ERROR] Permission denied: '' @ filepath)], SysExit 1)
      | Opened file \<Rightarrow>
          (case count_lines db file 1 [] [] 0 0 of
             (out, freq, total_words, invalid_items) \<Rightarrow>
               (out, Returned (freq, total_words, invalid_items))))"

subsection \<open>format_results, main\<close>

text \<open>\<open>items.sort(key=lambda item: (-item[1], item[0]))\<close>: a stable sort on the key, tuples
  and strings compared lexicographically.\<close>

definition sorted_items :: "(pystr \<times> int) list \<Rightarrow> (pystr \<times> int) list" where
  "sorted_items freq = sort_key (\<lambda>item. (- snd item, fst item)) freq"

definition format_results_words ::
  "float_builtins \<Rightarrow> (pystr \<times> int) list \<Rightarrow> int \<Rightarrow> int \<Rightarrow> int \<Rightarrow> real \<Rightarrow> pystr" where
  "format_results_words py freq total_words distinct_words invalid_items elapsed =
     join_lines
       ([str ''=== Word Count Results ==='',
         str ''Total valid words counted: '' @ str_int total_words,
         str ''Distinct words: '' @ str_int distinct_words,
         str ''Invalid items skipped: '' @ str_int invalid_items,
         [],
         str ''Word -> Frequency'',
         str ''-----------------''] @
        map (\<lambda>(word, n). word @ str '' -> '' @ str_int n) (sorted_items freq) @
        [[], str ''Elapsed time (s): '' @ fixed6 py elapsed])
     @ [10]"

text \<open>\<open>main\<close> ends with \<open>print(type(output), end="")\<close> and \<open>write_results(output)\<close>.\<close>

definition main_wordcount ::
  "unicode_db \<Rightarrow> float_builtins \<Rightarrow> pystr list \<Rightarrow> (pystr \<Rightarrow> file_open) \<Rightarrow> real \<Rightarrow> run" where
  "main_wordcount db py argv fs elapsed =
     (if length argv < 2 then
        \<lparr>console = [println (str ''Usage: python3 wordCount.py fileWithData.txt'')],
         results_file = None, ending = Exited 1\<rparr>
      else
        (case read_and_count_words db fs (argv ! 1) of
           (out, SysExit code) \<Rightarrow> \<lparr>console = out, results_file = None, ending = Exited code\<rparr>
         | (out, Returned (freq, total_words, invalid_items)) \<Rightarrow>
             (let distinct_words = int (length freq);
                  output = format_results_words py freq total_words distinct_words
                             invalid_items elapsed
              in \<lparr>console = out @ [str ''<class 'str'>''], results_file = Some output,
                  ending = Completed\<rparr>)))"

section \<open>Notions of the specification and example environments\<close>

text \<open>Re-parsing a digit string as a base-2 literal, the reading the round-trip property
  of the specification refers to: the digits \<open>0\<close> and \<open>1\<close>, most significant first.\<close>

definition base2_literal :: "pystr \<Rightarrow> int option" where
  "base2_literal s =
     (if s \<noteq> [] \<and> (\<forall>c \<in> set s. c = cp CHR ''0'' \<or> c = cp CHR ''1'')
      then Some (foldl (\<lambda>v c. 2 * v + (int c - int (cp CHR ''0''))) 0 s) else None)"

text \<open>The grammar of the strict integer parser, in the words of the specification: an ASCII
  digit, and the value of a digit run folded as \<open>value = value * 10 + digit\<close>.\<close>

definition is_ascii_digit :: "pychar \<Rightarrow> bool" where
  "is_ascii_digit c \<longleftrightarrow> cp CHR ''0'' \<le> c \<and> c \<le> cp CHR ''9''"

definition digits_value :: "pystr \<Rightarrow> int" where
  "digits_value ds = foldl (\<lambda>value ch. value * 10 + (int ch - int (cp CHR ''0''))) 0 ds"

text \<open>The highest count observed among the values of a list, in the words of the
  specification of \<open>mode\<close>.\<close>

definition max_frequency :: "real list \<Rightarrow> int" where
  "max_frequency values = Max ((\<lambda>v. int (count_list values v)) ` set values)"

text \<open>A line of the statistics input is valid when its stripped text is not empty and
  \<open>float\<close> reads it as a finite value; \<open>float_value\<close> is that value.\<close>

definition valid_float_line :: "float_builtins \<Rightarrow> pystr \<Rightarrow> bool" where
  "valid_float_line py l =
     (strip l \<noteq> [] \<and> (case float_of_str py (strip l) of Finite v \<Rightarrow> True | _ \<Rightarrow> False))"

definition float_value :: "float_builtins \<Rightarrow> pystr \<Rightarrow> real" where
  "float_value py l = (case float_of_str py (strip l) of Finite v \<Rightarrow> v | _ \<Rightarrow> 0)"

text \<open>A float that is not negative: a finite value of at least zero, or the positive
  infinity. A NaN is not.\<close>

fun nonneg_float :: "pyfloat \<Rightarrow> bool" where
  "nonneg_float (Fin r) = (0 \<le> r)"
| "nonneg_float PInf = True"
| "nonneg_float NInf = False"
| "nonneg_float NaN = False"

text \<open>A real number is a binary64 value when rounding leaves it as it is, and the running
  sums of a list, started at \<open>acc\<close>, are exact when each of them is a binary64 value: then
  an accumulation loop \<open>total += x\<close> rounds nowhere.\<close>

definition representable :: "real \<Rightarrow> bool" where
  "representable x \<longleftrightarrow> round64 x = Fin x"

fun exact_sums :: "real \<Rightarrow> real list \<Rightarrow> bool" where
  "exact_sums acc [] = True"
| "exact_sums acc (x # xs) = (representable (acc + x) \<and> exact_sums (acc + x) xs)"

text \<open>A file system in which every path opens and yields the given lines.\<close>

definition only_file :: "pystr list \<Rightarrow> pystr \<Rightarrow> file_open" where
  "only_file content path = Opened content"

text \<open>
  An instance of the float conversions on which the model can be run. It is the
  interpreter's on the texts of one to fifteen ASCII digits and on whole values of that
  size (\<open>float("12")\<close> is \<open>12.0\<close>, printed \<open>12.0\<close> and, with six decimals, \<open>12.000000\<close>),
  and it rejects every other text. The theorems hold for every instance; this one is the
  environment of the examples.
\<close>

definition whole_floats :: float_builtins where
  "whole_floats =
     \<lparr>float_of_str =
        (\<lambda>s. case scan_digits s 0 of
               Some v \<Rightarrow> if s = [] \<or> 15 < length s then NotANumber else Finite (real_of_int v)
             | None \<Rightarrow> NotANumber),
      repr_float =
        (\<lambda>x. case x of
               Fin r \<Rightarrow> str_int \<lfloor>r\<rfloor> @ str ''.0''
             | PInf \<Rightarrow> str ''inf''
             | NInf \<Rightarrow> str ''-inf''
             | NaN \<Rightarrow> str ''nan''),
      fixed6 = (\<lambda>x. str_int \<lfloor>x\<rfloor> @ str ''.000000'')\<rparr>"

text \<open>
  The ASCII part of the character database: the alphanumeric characters are the digits and
  the letters, and \<open>lower\<close> maps \<open>A\<close>..\<open>Z\<close> to \<open>a\<close>..\<open>z\<close> and leaves the rest. A database is
  ASCII-conformant when it agrees with that on the code points below 128, as the
  interpreter's does.
\<close>

definition ascii_isalnum :: "pychar \<Rightarrow> bool" where
  "ascii_isalnum c \<longleftrightarrow> (48 \<le> c \<and> c \<le> 57) \<or> (65 \<le> c \<and> c \<le> 90) \<or> (97 \<le> c \<and> c \<le> 122)"

definition ascii_lower :: "pychar \<Rightarrow> pychar" where
  "ascii_lower c = (if 65 \<le> c \<and> c \<le> 90 then c + 32 else c)"

definition ascii_conformant :: "unicode_db \<Rightarrow> bool" where
  "ascii_conformant db \<longleftrightarrow>
     (\<forall>c < 128. isalnum db c = ascii_isalnum c \<and> lower db c = [ascii_lower c])"

text \<open>
  An excerpt of the interpreter's database on which the model can be run: ASCII, and the two
  code points U+0130 (LATIN CAPITAL LETTER I WITH DOT ABOVE; alphanumeric, and \<open>lower\<close>
  yields the two characters U+0069 U+0307) and U+0307 (COMBINING DOT ABOVE; not
  alphanumeric). Every other code point is left out: not alphanumeric and unchanged here.
\<close>

definition ucd_excerpt :: unicode_db where
  "ucd_excerpt =
     \<lparr>isalnum = (\<lambda>c. ascii_isalnum c \<or> c = 0x130),
      lower = (\<lambda>c. if c = 0x130 then [0x69, 0x307] else [ascii_lower c])\<rparr>"

text \<open>The characters \<open>normalize_word\<close> keeps.\<close>

definition kept :: "unicode_db \<Rightarrow> pychar \<Rightarrow> bool" where
  "kept db c \<longleftrightarrow> isalnum db c \<or> c = cp (CHR 0x27)"

text \<open>The order of the report of the word counter, in the words of the specification:
  higher frequency first, ties by ascending word.\<close>

definition report_before :: "pystr \<times> int \<Rightarrow> pystr \<times> int \<Rightarrow> bool" where
  "report_before a b \<longleftrightarrow> snd a > snd b \<or> (snd a = snd b \<and> fst a < fst b)"

text \<open>What a scan goes through: a line is blank when nothing is left after \<open>strip\<close>; the
  tokens scanned are those of the lines that are not blank; a line of the conversion input
  is valid when the strict parser accepts its stripped text.\<close>

definition blank_line :: "pystr \<Rightarrow> bool" where
  "blank_line l \<longleftrightarrow> strip l = []"

definition tokens_scanned :: "pystr list \<Rightarrow> pystr list" where
  "tokens_scanned content = concat (map (\<lambda>l. split (strip l)) content)"

definition valid_int_line :: "pystr \<Rightarrow> bool" where
  "valid_int_line l = fst (snd (parse_int_strict (strip l) 0))"

definition int_line_value :: "pystr \<Rightarrow> int" where
  "int_line_value l = snd (snd (parse_int_strict (strip l) 0))"

text \<open>A token is valid when something is left of it after normalisation.\<close>

definition valid_token :: "unicode_db \<Rightarrow> pystr \<Rightarrow> bool" where
  "valid_token db token \<longleftrightarrow> normalize_word db token \<noteq> []"

section \<open>Properties of the binary64 rounding\<close>

lemma scale64_pos: "0 < scale64" "1 \<le> scale64"
  by (simp_all add: scale64_def)

lemma rne_of_int: "rne (of_int n) = n"
  by (simp add: rne_def)

lemma rne_ge_floor: "\<lfloor>y\<rfloor> \<le> rne y"
  by (simp add: rne_def Let_def)

lemma rne_nonneg: "0 \<le> y \<Longrightarrow> 0 \<le> rne y"
  using rne_ge_floor [of y] by (simp add: order_trans [of 0 "\<lfloor>y\<rfloor>"])

lemma qexp_from_minimal:
  "j \<le> e \<Longrightarrow> a * scale64 < 2 ^ (e + 53) \<Longrightarrow> qexp_from a j \<le> e"
proof (induction a j rule: qexp_from.induct)
  case (1 a j)
  show ?case
  proof (cases "2045 \<le> j \<or> a * scale64 < 2 ^ (j + 53)")
    case True
    then show ?thesis using "1.prems" by (subst qexp_from.simps) simp
  next
    case False
    have "j \<noteq> e" using False "1.prems"(2) by auto
    with "1.prems"(1) have "Suc j \<le> e" by simp
    from 1(1) [OF False this "1.prems"(2)] show ?thesis
      using False by (subst qexp_from.simps) simp
  qed
qed

lemma qexp_from_passed:
  "qexp_from a j = j \<or> 2 ^ (qexp_from a j + 52) \<le> a * scale64"
proof (induction a j rule: qexp_from.induct)
  case (1 a j)
  show ?case
  proof (cases "2045 \<le> j \<or> a * scale64 < 2 ^ (j + 53)")
    case True
    then show ?thesis by (subst (1 2) qexp_from.simps) simp
  next
    case False
    then have nl: "2 ^ (j + 53) \<le> a * scale64" by simp
    have eq: "qexp_from a j = qexp_from a (Suc j)"
      using False by (subst qexp_from.simps) simp
    from 1 [OF False] show ?thesis
    proof
      assume "qexp_from a (Suc j) = Suc j"
      with eq have "qexp_from a j + 52 = j + 53" by simp
      then have "(2::real) ^ (qexp_from a j + 52) = 2 ^ (j + 53)" by (rule arg_cong)
      with nl show ?thesis by (simp only: simp_thms)
    next
      assume "2 ^ (qexp_from a (Suc j) + 52) \<le> a * scale64"
      with eq show ?thesis by simp
    qed
  qed
qed

lemma quantum_pos: "0 < quantum a"
  using scale64_pos by (simp add: quantum_def)

text \<open>The quantum of a magnitude of at least one does not exceed it.\<close>

lemma quantum_le:
  assumes "1 \<le> a"
  shows "quantum a \<le> a"
proof -
  let ?j = "qexp_from a 0"
  from qexp_from_passed [of a 0] show ?thesis
  proof
    assume "?j = 0"
    then have "quantum a = 1 / scale64" by (simp add: quantum_def)
    also have "\<dots> \<le> 1" using scale64_pos by simp
    finally show ?thesis using assms by simp
  next
    assume p: "2 ^ (?j + 52) \<le> a * scale64"
    have "(2::real) ^ ?j \<le> 2 ^ (?j + 52)" by (rule power_increasing) simp_all
    from this p have "2 ^ ?j \<le> a * scale64" by (rule order_trans)
    then show ?thesis using scale64_pos by (simp add: quantum_def field_simps)
  qed
qed

lemma round64_not_NaN: "round64 x \<noteq> NaN"
  by (simp add: round64_def)

lemma overflow_threshold_pos: "0 < overflow_threshold"
  by (simp add: overflow_threshold_def)

lemma round64_0: "round64 0 = Fin 0"
  using overflow_threshold_pos by (simp add: round64_def)

lemma round64_overflow: "overflow_threshold \<le> x \<Longrightarrow> round64 x = PInf"
  using overflow_threshold_pos by (simp add: round64_def)

lemma round64_nonneg: "0 \<le> x \<Longrightarrow> nonneg_float (round64 x)"
  using quantum_pos [of "\<bar>x\<bar>"] rne_nonneg [of "\<bar>x\<bar> / quantum \<bar>x\<bar>"]
  by (simp add: round64_def sgn_if)

text \<open>A value of at least one does not round to zero.\<close>

lemma round64_positive:
  assumes "1 \<le> x"
  shows "round64 x \<noteq> Fin 0"
proof (cases "overflow_threshold \<le> \<bar>x\<bar>")
  case True
  then show ?thesis by (simp add: round64_def)
next
  case False
  have a: "\<bar>x\<bar> = x" "sgn x = 1" using assms by simp_all
  have q: "0 < quantum x" by (rule quantum_pos)
  have "quantum x \<le> x" using assms by (rule quantum_le)
  then have "1 \<le> x / quantum x" using q by (simp add: field_simps)
  then have "1 \<le> \<lfloor>x / quantum x\<rfloor>" by (simp add: le_floor_iff)
  from this rne_ge_floor [of "x / quantum x"] have "1 \<le> rne (x / quantum x)"
    by (rule order_trans)
  then have "(1::real) \<le> of_int (rne (x / quantum x))" by simp
  with q have pos: "0 < quantum x * of_int (rne (x / quantum x))" by simp
  have r: "round64 x = Fin (quantum x * of_int (rne (x / quantum x)))"
    using False a by (simp add: round64_def)
  show ?thesis
  proof
    assume "round64 x = Fin 0"
    with r have "quantum x * of_int (rne (x / quantum x)) = 0"
      by (simp only: pyfloat.inject)
    with pos show False by (simp only: less_irrefl)
  qed
qed

lemma round64_length: "round64 (real n) = Fin 0 \<longleftrightarrow> n = 0"
proof (cases "n = 0")
  case True
  then show ?thesis by (simp add: round64_0)
next
  case False
  then have "1 \<le> real n" by simp
  from round64_positive [OF this] False show ?thesis by simp
qed

text \<open>Rounding leaves the binary64 values as they are: the multiples \<open>m * 2 ^ j / 2 ^ 1074\<close>
  with \<open>\<bar>m\<bar> < 2 ^ 53\<close> and \<open>j \<le> 2045\<close>.\<close>

lemma grid_point:
  assumes n: "0 \<le> n" "n < 2 ^ 53" and j: "j \<le> 2045"
    and a: "a = of_int n * 2 ^ j / scale64"
  shows "a < overflow_threshold" and "quantum a * of_int (rne (a / quantum a)) = a"
proof -
  have sp: "0 < scale64" by (rule scale64_pos)
  have as: "a * scale64 = of_int n * 2 ^ j" unfolding a using sp by simp
  have n': "of_int n \<le> (2 ^ 53 - 1 :: real)"
  proof -
    from n have "n \<le> 2 ^ 53 - 1" by simp
    then have "(of_int n :: real) \<le> of_int (2 ^ 53 - 1)" by (rule of_int_le_iff [THEN iffD2])
    then show ?thesis by simp
  qed
  have pj: "(2::real) ^ j \<le> 2 ^ 2045" using j by (intro power_increasing) simp_all
  have "a * scale64 \<le> (2 ^ 53 - 1) * 2 ^ 2045"
    unfolding as using n' pj n(1) by (intro mult_mono) simp_all
  also have "\<dots> < overflow_threshold * scale64"
    by (simp add: scale64_def overflow_threshold_def)
  finally have "a * scale64 < overflow_threshold * scale64" .
  then show "a < overflow_threshold" by (simp only: mult_less_cancel_right_pos [OF sp])
  define q where "q = qexp_from a 0"
  have "of_int n < (2 ^ 53 :: real)" using n' by simp
  then have "a * scale64 < 2 ^ 53 * 2 ^ j" unfolding as by simp
  then have "a * scale64 < 2 ^ (j + 53)" by (simp add: power_add)
  with qexp_from_minimal [of 0 j a] have qj: "q \<le> j" by (simp add: q_def)
  have qa: "quantum a = 2 ^ q / scale64" by (simp add: quantum_def q_def)
  have split: "(2::real) ^ j = 2 ^ (j - q) * 2 ^ q"
    using qj by (simp add: power_add [symmetric])
  have "a / quantum a = a * scale64 / 2 ^ q"
    unfolding qa using sp by simp
  also have "\<dots> = of_int n * 2 ^ j / 2 ^ q"
    unfolding as ..
  also have "\<dots> = of_int n * 2 ^ (j - q)"
    unfolding split by simp
  also have "\<dots> = of_int (n * 2 ^ (j - q))" by simp
  finally have quot: "a / quantum a = of_int (n * 2 ^ (j - q))" .
  have "rne (a / quantum a) = n * 2 ^ (j - q)"
    unfolding quot by (rule rne_of_int)
  then have "quantum a * of_int (rne (a / quantum a)) = quantum a * (a / quantum a)"
    using quot by simp
  also have "\<dots> = a" using quantum_pos [of a] by simp
  finally show "quantum a * of_int (rne (a / quantum a)) = a" .
qed

lemma round64_exact:
  assumes m: "\<bar>m\<bar> < 2 ^ 53" and j: "j \<le> 2045"
  shows "round64 (of_int m * 2 ^ j / scale64) = Fin (of_int m * 2 ^ j / scale64)"
proof -
  define x :: real where "x = of_int m * 2 ^ j / scale64"
  have sp: "0 < scale64" by (rule scale64_pos)
  have a: "\<bar>x\<bar> = of_int \<bar>m\<bar> * 2 ^ j / scale64"
  proof -
    have p: "\<bar>2 ^ j :: real\<bar> = 2 ^ j" by simp
    have s: "\<bar>scale64\<bar> = scale64" using sp by simp
    show ?thesis unfolding x_def by (simp only: abs_divide abs_mult p s of_int_abs)
  qed
  have g: "\<bar>x\<bar> < overflow_threshold"
    "quantum \<bar>x\<bar> * of_int (rne (\<bar>x\<bar> / quantum \<bar>x\<bar>)) = \<bar>x\<bar>"
    using grid_point [of "\<bar>m\<bar>" j "\<bar>x\<bar>"] m j a by simp_all
  from g(1) have "\<not> overflow_threshold \<le> \<bar>x\<bar>" by (simp only: not_le)
  then have "round64 x = Fin (sgn x * \<bar>x\<bar>)" by (simp only: round64_def g(2) if_False)
  also have "sgn x * \<bar>x\<bar> = x" by (rule sgn_mult_abs)
  finally show ?thesis unfolding x_def .
qed

text \<open>In particular the integers below \<open>2 ^ 53\<close> in magnitude, their halves, and
  \<open>2 ^ 1023\<close>.\<close>

lemma round64_int: "\<bar>m\<bar> < 2 ^ 53 \<Longrightarrow> round64 (of_int m) = Fin (of_int m)"
  using round64_exact [of m 1074] scale64_pos by (simp add: scale64_def)

lemma round64_nat: "n < 2 ^ 53 \<Longrightarrow> round64 (real n) = Fin (real n)"
  using round64_int [of "int n"] by simp

lemma round64_numeral:
  "(numeral k :: int) < 2 ^ 53 \<Longrightarrow> round64 (numeral k) = Fin (numeral k)"
  using round64_int [of "numeral k"] by simp

lemma round64_neg_numeral:
  "(numeral k :: int) < 2 ^ 53 \<Longrightarrow> round64 (- numeral k) = Fin (- numeral k)"
  using round64_int [of "- numeral k"] by simp

lemma round64_1: "round64 1 = Fin 1"
  using round64_int [of 1] by simp

lemma round64_half:
  assumes m: "\<bar>m\<bar> < 2 ^ 53"
  shows "round64 (of_int m / 2) = Fin (of_int m / 2)"
proof -
  define p :: real where "p = 2 ^ 1073"
  have pp: "0 < p" by (simp add: p_def)
  have s: "scale64 = p * 2" by (simp add: p_def scale64_def)
  have "of_int m * p / scale64 = of_int m / 2" unfolding s using pp by simp
  then have e: "of_int m * 2 ^ 1073 / scale64 = (of_int m / 2 :: real)" unfolding p_def .
  show ?thesis using round64_exact [OF m, of 1073] unfolding e by simp
qed

lemma round64_numeral_half:
  "(numeral k :: int) < 2 ^ 53 \<Longrightarrow> round64 (numeral k / 2) = Fin (numeral k / 2)"
  using round64_half [of "numeral k"] by simp

lemma round64_2_1023: "round64 (2 ^ 1023) = Fin (2 ^ 1023)"
proof -
  have "of_int (2 ^ 52) * 2 ^ 2045 / scale64 = (2 ^ 1023 :: real)"
    by (simp add: scale64_def)
  with round64_exact [of "2 ^ 52" 2045] show ?thesis by simp
qed

lemma round64_2_1024: "round64 (2 ^ 1023 + 2 ^ 1023) = PInf"
  by (rule round64_overflow) (simp add: overflow_threshold_def)

text \<open>The quantum of a magnitude within a binade.\<close>

lemma qexp_from_stop:
  "2045 \<le> qexp_from a j \<or> a * scale64 < 2 ^ (qexp_from a j + 53)"
proof (induction a j rule: qexp_from.induct)
  case (1 a j)
  show ?case
  proof (cases "2045 \<le> j \<or> a * scale64 < 2 ^ (j + 53)")
    case True
    then show ?thesis by (subst (1 2) qexp_from.simps) simp
  next
    case False
    have eq: "qexp_from a j = qexp_from a (Suc j)"
      using False by (subst qexp_from.simps) simp
    from 1 [OF False] show ?thesis unfolding eq .
  qed
qed

lemma quantum_binade:
  assumes lo: "2 ^ (e + 52) \<le> a * scale64" and hi: "a * scale64 < 2 ^ (e + 53)"
    and e: "e \<le> 2045"
  shows "quantum a = 2 ^ e / scale64"
proof -
  have le: "qexp_from a 0 \<le> e" using hi by (intro qexp_from_minimal) simp_all
  have "e \<le> qexp_from a 0"
    using qexp_from_stop [of a 0]
  proof
    assume "2045 \<le> qexp_from a 0"
    with e show ?thesis by simp
  next
    assume "a * scale64 < 2 ^ (qexp_from a 0 + 53)"
    with lo have "(2::real) ^ (e + 52) < 2 ^ (qexp_from a 0 + 53)" by (rule le_less_trans)
    then have "e + 52 < qexp_from a 0 + 53" by simp
    then show ?thesis by simp
  qed
  with le have "qexp_from a 0 = e" by simp
  then show ?thesis by (simp add: quantum_def)
qed

lemma quantum_2_53:
  assumes "2 ^ 53 \<le> a" "a < 2 ^ 54"
  shows "quantum a = 2"
proof -
  have sp: "0 < scale64" by (rule scale64_pos)
  have p: "(2::real) ^ (1075 + 52) = 2 ^ 53 * scale64"
    "(2::real) ^ (1075 + 53) = 2 ^ 54 * scale64" "(2::real) ^ 1075 / scale64 = 2"
    by (simp_all add: scale64_def)
  have l: "2 ^ 53 * scale64 \<le> a * scale64" using assms(1) sp by simp
  have h: "a * scale64 < 2 ^ 54 * scale64" using assms(2) sp by simp
  have "quantum a = 2 ^ 1075 / scale64"
  proof (rule quantum_binade)
    show "2 ^ (1075 + 52) \<le> a * scale64" using l by (simp only: p)
    show "a * scale64 < 2 ^ (1075 + 53)" using h by (simp only: p)
    show "(1075::nat) \<le> 2045" by simp
  qed
  then show ?thesis by (simp only: p)
qed

text \<open>A value half-way between two binary64 values rounds to the one with the even
  significand: above \<open>2 ^ 53\<close> the binary64 values are the even integers.\<close>

lemma round64_ties_to_even:
  "round64 (2 ^ 53 + 1) = Fin (2 ^ 53)" "round64 (2 ^ 53 + 3) = Fin (2 ^ 53 + 4)"
proof -
  have t: "\<not> overflow_threshold \<le> \<bar>2 ^ 53 + 1 :: real\<bar>"
    "\<not> overflow_threshold \<le> \<bar>2 ^ 53 + 3 :: real\<bar>"
    by (simp_all add: overflow_threshold_def)
  have q: "quantum \<bar>2 ^ 53 + 1\<bar> = 2" "quantum \<bar>2 ^ 53 + 3\<bar> = 2"
    by (rule quantum_2_53; simp)+
  have r: "rne (\<bar>2 ^ 53 + 1\<bar> / 2) = 2 ^ 52" "rne (\<bar>2 ^ 53 + 3\<bar> / 2) = 2 ^ 52 + 2"
    by (simp_all add: rne_def Let_def)
  show "round64 (2 ^ 53 + 1) = Fin (2 ^ 53)"
    unfolding round64_def by (simp only: t q r if_False) simp
  show "round64 (2 ^ 53 + 3) = Fin (2 ^ 53 + 4)"
    unfolding round64_def by (simp only: t q r if_False) simp
qed

text \<open>Which operations raise, and which results are not negative.\<close>

lemma fdiv_error: "isl (fdiv x d) \<longleftrightarrow> d = Fin 0"
  by (cases x; cases d) auto

lemma fadd_Fin_not_NaN: "t \<noteq> NaN \<Longrightarrow> fadd t (Fin v) \<noteq> NaN"
  by (cases t) (simp_all add: round64_not_NaN)

lemma fsub_Fin_not_NaN: "m \<noteq> NaN \<Longrightarrow> fsub (Fin v) m \<noteq> NaN"
  by (cases m) (simp_all add: fsub_def round64_not_NaN)

lemma fdiv_Fin_not_NaN: "t \<noteq> NaN \<Longrightarrow> 0 < b \<Longrightarrow> \<exists>r. fdiv t (Fin b) = Inr r \<and> r \<noteq> NaN"
  by (cases t) (simp_all add: round64_not_NaN)

lemma fmul_square_nonneg: "d \<noteq> NaN \<Longrightarrow> nonneg_float (fmul d d)"
  using round64_nonneg [of "r * r" for r] by (cases d) simp_all

lemma fadd_nonneg: "nonneg_float x \<Longrightarrow> nonneg_float y \<Longrightarrow> nonneg_float (fadd x y)"
  by (cases x; cases y) (simp_all add: round64_nonneg)

lemma fdiv_Fin_nonneg:
  "nonneg_float t \<Longrightarrow> 0 < b \<Longrightarrow> \<exists>v. fdiv t (Fin b) = Inr v \<and> nonneg_float v"
  by (cases t) (simp_all add: round64_nonneg)

lemma fsqrt_nonneg:
  "nonneg_float v \<Longrightarrow>
     \<exists>s. fsqrt v = Inr s \<and> nonneg_float s \<and> s = (case v of Fin a \<Rightarrow> round64 (sqrt a) | _ \<Rightarrow> PInf)"
  by (cases v) (simp_all add: round64_nonneg)

lemma fmul_square_not_negative: "nonneg_float (fmul d d) \<or> fmul d d = NaN"
  using fmul_square_nonneg [of d] by (cases "d = NaN") simp_all

lemma fadd_not_negative:
  "nonneg_float x \<or> x = NaN \<Longrightarrow> nonneg_float y \<or> y = NaN \<Longrightarrow>
     nonneg_float (fadd x y) \<or> fadd x y = NaN"
  by (cases x; cases y) (simp_all add: round64_nonneg)

lemma fdiv_not_negative:
  "nonneg_float t \<or> t = NaN \<Longrightarrow> nonneg_float d \<Longrightarrow> d \<noteq> Fin 0 \<Longrightarrow>
     \<exists>v. fdiv t d = Inr v \<and> (nonneg_float v \<or> v = NaN)"
  by (cases t; cases d) (auto simp add: round64_nonneg)

lemma fsqrt_not_negative: "nonneg_float v \<or> v = NaN \<Longrightarrow> \<exists>s. fsqrt v = Inr s"
  by (cases v) auto

section \<open>Properties of convert_numbers.py\<close>

subsection \<open>The base converter\<close>

lemma py_index_in_range:
  "0 \<le> i \<Longrightarrow> i < int (length xs) \<Longrightarrow> py_index xs i = Inr (xs ! nat i)"
  by (simp add: py_index_def)

lemma convert_loop_returns:
  assumes base: "2 \<le> base" "base \<le> int (length digits)"
  shows "0 \<le> v \<Longrightarrow> \<exists>s. convert_loop v base digits acc = Some (Inr (acc @ s))
            \<and> set s \<subseteq> set digits \<and> (0 < v \<longrightarrow> s \<noteq> [])"
proof (induction "nat v" arbitrary: v acc rule: less_induct)
  case less
  show ?case
  proof (cases "0 < v")
    case False
    then show ?thesis by (subst convert_loop.simps) simp
  next
    case True
    let ?r = "v mod base"
    have lt: "?r < base" using base(1) by simp
    have r: "0 \<le> ?r" "?r < int (length digits)"
    proof -
      show "0 \<le> ?r" using base(1) by simp
      show "?r < int (length digits)" using lt base(2) by (rule less_le_trans)
    qed
    have idx: "py_index digits ?r = Inr (digits ! nat ?r)"
      using r by (rule py_index_in_range)
    have mem: "digits ! nat ?r \<in> set digits"
      using r by (simp add: nat_less_iff)
    have smaller: "nat (v div base) < nat v" "0 \<le> v div base"
      using True base by (simp_all add: pos_imp_zdiv_nonneg_iff nat_less_iff int_div_less_self)
    from less.hyps [OF smaller(1) smaller(2), of "acc @ [digits ! nat ?r]"]
    obtain s where s: "convert_loop (v div base) base digits (acc @ [digits ! nat ?r])
        = Some (Inr ((acc @ [digits ! nat ?r]) @ s))" "set s \<subseteq> set digits"
      by blast
    have "convert_loop v base digits acc = Some (Inr (acc @ (digits ! nat ?r # s)))"
      using True base idx s(1) by (subst convert_loop.simps) simp
    then show ?thesis using s(2) mem by auto
  qed
qed

lemma convert_loop_binary:
  "0 \<le> v \<Longrightarrow> \<exists>s. convert_loop v 2 (str ''01'') acc = Some (Inr (acc @ s))
            \<and> (\<forall>c \<in> set s. c = 48 \<or> c = 49)
            \<and> foldr (\<lambda>c a. 2 * a + (int c - 48)) s 0 = v \<and> (0 < v \<longrightarrow> s \<noteq> [])"
proof (induction "nat v" arbitrary: v acc rule: less_induct)
  case less
  show ?case
  proof (cases "0 < v")
    case False
    with less.prems have "v = 0" by simp
    then show ?thesis by (subst convert_loop.simps) simp
  next
    case True
    let ?d = "48 + nat (v mod 2)"
    have idx: "py_index (str ''01'') (v mod 2) = Inr ?d"
    proof (cases "v mod 2 = 0")
      case True
      then show ?thesis by (simp add: py_index_def str_def)
    next
      case False
      then have "v mod 2 = 1" by presburger
      then show ?thesis by (simp add: py_index_def str_def)
    qed
    have smaller: "nat (v div 2) < nat v" "0 \<le> v div 2"
      using True by simp_all
    from less.hyps [OF smaller(1) smaller(2), of "acc @ [?d]"]
    obtain s where s: "convert_loop (v div 2) 2 (str ''01'') (acc @ [?d])
        = Some (Inr ((acc @ [?d]) @ s))" "\<forall>c \<in> set s. c = 48 \<or> c = 49"
        "foldr (\<lambda>c a. 2 * a + (int c - 48)) s 0 = v div 2"
      by blast
    have run: "convert_loop v 2 (str ''01'') acc = Some (Inr (acc @ (?d # s)))"
      using True idx s(1) by (subst convert_loop.simps) simp
    have "v mod 2 = 0 \<or> v mod 2 = 1" by presburger
    then have d: "?d = 48 \<or> ?d = 49" by auto
    have val: "foldr (\<lambda>c a. 2 * a + (int c - 48)) (?d # s) 0 = v"
      using s(3) by simp
    from run d s(2) val show ?thesis
      by (intro exI [of _ "?d # s"]) simp
  qed
qed

subsection \<open>The strict integer parser\<close>

lemma scan_digits_iff:
  "scan_digits ds v = Some r \<longleftrightarrow>
     (\<forall>c \<in> set ds. 48 \<le> c \<and> c \<le> 57) \<and> r = foldl (\<lambda>value ch. value * 10 + (int ch - 48)) v ds"
  by (induction ds arbitrary: v) auto

lemma scan_digits_abort:
  "c < 48 \<or> 57 < c \<Longrightarrow> scan_digits (ds @ c # rest) v = None"
  by (induction ds arbitrary: v) auto

lemma binary_round_trip:
  assumes "0 \<le> n"
  shows "\<exists>s. convert_positive_to_base n 2 (str ''01'') = Some (Inr s) \<and> base2_literal s = Some n"
proof (cases "n = 0")
  case True
  then show ?thesis
    by (simp add: convert_positive_to_base_def base2_literal_def str_def)
next
  case False
  with assms have pos: "0 < n" by simp
  from convert_loop_binary [OF assms, of "[]"] obtain s where
    s: "convert_loop n 2 (str ''01'') [] = Some (Inr s)" "\<forall>c \<in> set s. c = 48 \<or> c = 49"
       "foldr (\<lambda>c a. 2 * a + (int c - 48)) s 0 = n" "s \<noteq> []"
    using pos by auto
  have conv: "convert_positive_to_base n 2 (str ''01'') = Some (Inr (rev s))"
    using False s(1) by (simp add: convert_positive_to_base_def)
  have "foldl (\<lambda>v c. 2 * v + (int c - 48)) 0 (rev s) = n"
    using s(3) by (simp add: foldl_conv_foldr)
  then have "base2_literal (rev s) = Some n"
    using s(2) s(4) by (simp add: base2_literal_def)
  with conv show ?thesis by blast
qed

lemma convert_positive_returns:
  assumes "2 \<le> base" "base \<le> int (length digits)" "0 \<le> n" "cp CHR ''0'' \<in> set digits"
  shows "\<exists>s. convert_positive_to_base n base digits = Some (Inr s) \<and> set s \<subseteq> set digits"
proof (cases "n = 0")
  case True
  then show ?thesis using assms(4) by (simp add: convert_positive_to_base_def str_def)
next
  case False
  from convert_loop_returns [OF assms(1,2,3), of "[]"] obtain s where
    "convert_loop n base digits [] = Some (Inr s)" "set s \<subseteq> set digits" by auto
  then show ?thesis using False by (simp add: convert_positive_to_base_def)
qed

lemma to_binary_nonneg:
  "0 \<le> n \<Longrightarrow> \<exists>s. to_binary n = Some (Inr s) \<and> base2_literal s = Some n \<and> cp CHR ''-'' \<notin> set s"
proof -
  assume n: "0 \<le> n"
  from binary_round_trip [OF n] obtain s where
    s: "convert_positive_to_base n 2 (str ''01'') = Some (Inr s)" "base2_literal s = Some n" by blast
  from s(2) have "\<forall>c \<in> set s. c = 48 \<or> c = 49"
    by (simp add: base2_literal_def split: if_splits)
  then have "cp CHR ''-'' \<notin> set s" by auto
  with s n show ?thesis by (simp add: to_binary_def)
qed

lemma to_hex_nonneg:
  "0 \<le> n \<Longrightarrow> \<exists>s. to_hex n = Some (Inr s) \<and> cp CHR ''-'' \<notin> set s"
proof -
  assume n: "0 \<le> n"
  have "\<exists>s. convert_positive_to_base n 16 HEX_DIGITS = Some (Inr s) \<and> set s \<subseteq> set HEX_DIGITS"
    by (rule convert_positive_returns) (use n in \<open>simp_all add: HEX_DIGITS_def str_def\<close>)
  then obtain s where s: "convert_positive_to_base n 16 HEX_DIGITS = Some (Inr s)"
    "set s \<subseteq> set HEX_DIGITS" by blast
  have "cp CHR ''-'' \<notin> set HEX_DIGITS" by (simp add: HEX_DIGITS_def str_def)
  with s n show ?thesis by (auto simp add: to_hex_def)
qed

lemma to_binary_neg:
  assumes "n < 0"
  shows "\<exists>b. convert_positive_to_base \<bar>n\<bar> 2 (str ''01'') = Some (Inr b)
           \<and> to_binary n = Some (Inr (str ''-'' @ b))"
proof -
  have "0 \<le> \<bar>n\<bar>" by simp
  from binary_round_trip [OF this] obtain b where
    "convert_positive_to_base \<bar>n\<bar> 2 (str ''01'') = Some (Inr b)" by blast
  then show ?thesis using assms by (simp add: to_binary_def prepend_def abs_if)
qed

lemma to_hex_neg:
  assumes "n < 0"
  shows "\<exists>h. convert_positive_to_base \<bar>n\<bar> 16 HEX_DIGITS = Some (Inr h)
           \<and> to_hex n = Some (Inr (str ''-'' @ h))"
proof -
  have "\<exists>s. convert_positive_to_base \<bar>n\<bar> 16 HEX_DIGITS = Some (Inr s) \<and> set s \<subseteq> set HEX_DIGITS"
    by (rule convert_positive_returns) (simp_all add: HEX_DIGITS_def str_def)
  then obtain h where "convert_positive_to_base \<bar>n\<bar> 16 HEX_DIGITS = Some (Inr h)" by blast
  then show ?thesis using assms by (simp add: to_hex_def prepend_def abs_if)
qed

lemma to_binary_minus_5: "to_binary (- 5) = Some (Inr (str ''-101''))"
  by (simp add: to_binary_def convert_positive_to_base_def convert_loop.simps py_index_def
      str_def prepend_def)

text \<open>
  Claim C1. For every non-negative \<open>n\<close> the base-2 conversion returns a digit string that reads
  back, as a base-2 literal, as \<open>n\<close>, and neither \<open>to_binary\<close> nor \<open>to_hex\<close> renders a
  sign; zero converts to the single digit \<open>0\<close> in both bases; for every negative \<open>n\<close> the
  result is \<open>-\<close> followed by the conversion of the absolute value; \<open>to_binary(-5)\<close> is
  \<open>-101\<close>. In particular every one of these calls returns.
\<close>

theorem base_converter_round_trip:
  "(0 \<le> n \<longrightarrow>
      (\<exists>s. convert_positive_to_base n 2 (str ''01'') = Some (Inr s) \<and> base2_literal s = Some n)
      \<and> (\<exists>b h. to_binary n = Some (Inr b) \<and> base2_literal b = Some n \<and> to_hex n = Some (Inr h)
             \<and> cp CHR ''-'' \<notin> set b \<and> cp CHR ''-'' \<notin> set h))
   \<and> to_binary 0 = Some (Inr (str ''0'')) \<and> to_hex 0 = Some (Inr (str ''0''))
   \<and> (n < 0 \<longrightarrow>
        (\<exists>b h. convert_positive_to_base \<bar>n\<bar> 2 (str ''01'') = Some (Inr b)
             \<and> to_binary n = Some (Inr (str ''-'' @ b))
             \<and> convert_positive_to_base \<bar>n\<bar> 16 HEX_DIGITS = Some (Inr h)
             \<and> to_hex n = Some (Inr (str ''-'' @ h))))
   \<and> to_binary (- 5) = Some (Inr (str ''-101''))"
proof -
  have z: "to_binary 0 = Some (Inr (str ''0''))" "to_hex 0 = Some (Inr (str ''0''))"
    by (simp_all add: to_binary_def to_hex_def convert_positive_to_base_def)
  show ?thesis
    using binary_round_trip [of n] to_binary_nonneg [of n] to_hex_nonneg [of n]
      to_binary_neg [of n] to_hex_neg [of n] z to_binary_minus_5
    by blast
qed

theorem base_converter_round_trip_witness:
  "(0::int) \<le> 6 \<and> convert_positive_to_base 6 2 (str ''01'') = Some (Inr (str ''110''))
   \<and> base2_literal (str ''110'') = Some 6
   \<and> (- 6 :: int) < 0 \<and> to_binary (- 6) = Some (Inr (str ''-110''))
   \<and> to_hex (- 6) = Some (Inr (str ''-6''))"
  using base_converter_round_trip [of 6] base_converter_round_trip [of "- 6"]
  by (simp add: convert_positive_to_base_def convert_loop.simps py_index_def str_def
      HEX_DIGITS_def)

lemma digits_value_foldl:
  "digits_value ds = foldl (\<lambda>value ch. value * 10 + (int ch - 48)) 0 ds"
  by (simp add: digits_value_def)

lemma scan_digits_digits:
  "scan_digits ds 0 = Some r \<longleftrightarrow> (\<forall>c \<in> set ds. is_ascii_digit c) \<and> r = digits_value ds"
  by (simp add: scan_digits_iff is_ascii_digit_def digits_value_foldl)

lemma parse_unsigned:
  assumes "text \<noteq> []" "hd text \<noteq> cp CHR ''+''" "hd text \<noteq> cp CHR ''-''"
  shows "snd (parse_int_strict text line_no) =
           (case scan_digits text 0 of None \<Rightarrow> (False, 0) | Some v \<Rightarrow> (True, v))"
  using assms by (cases "text") (auto simp add: parse_int_strict_def split: option.splits)

lemma parse_signed:
  assumes "c = cp CHR ''+'' \<or> c = cp CHR ''-''"
  shows "snd (parse_int_strict (c # ds) line_no) =
           (if ds = [] then (False, 0)
            else case scan_digits ds 0 of None \<Rightarrow> (False, 0)
                 | Some v \<Rightarrow> (True, (if c = cp CHR ''-'' then - 1 else 1) * v))"
  using assms by (auto simp add: parse_int_strict_def split: option.splits)

lemma parse_empty: "snd (parse_int_strict [] line_no) = (False, 0)"
  by (simp add: parse_int_strict_def)

lemma parse_int_strict_accepts:
  "snd (parse_int_strict text line_no) = (True, v) \<longleftrightarrow>
     (\<exists>sg ds. text = sg @ ds \<and> (sg = [] \<or> sg = str ''+'' \<or> sg = str ''-'') \<and> ds \<noteq> []
        \<and> (\<forall>c \<in> set ds. is_ascii_digit c)
        \<and> v = (if sg = str ''-'' then - 1 else 1) * digits_value ds)"
  (is "?L \<longleftrightarrow> ?R")
proof (cases "text")
  case Nil
  then show ?thesis by (simp add: parse_empty)
next
  case (Cons c ds)
  show ?thesis
  proof (cases "c = cp CHR ''+'' \<or> c = cp CHR ''-''")
    case True
    have nd: "\<not> is_ascii_digit c" using True by (auto simp add: is_ascii_digit_def)
    show ?thesis
    proof
      assume ?L
      then have ds: "ds \<noteq> []" and sc: "scan_digits ds 0 = Some ((if c = cp CHR ''-'' then - 1 else 1) * v)"
        using True unfolding Cons parse_signed [OF True]
        by (auto split: if_splits option.splits)
      from sc have "(\<forall>c \<in> set ds. is_ascii_digit c)"
        and "(if c = cp CHR ''-'' then - 1 else 1) * v = digits_value ds"
        by (simp_all add: scan_digits_digits)
      then have "text = [c] @ ds \<and> ([c] = [] \<or> [c] = str ''+'' \<or> [c] = str ''-'') \<and> ds \<noteq> []
        \<and> (\<forall>c \<in> set ds. is_ascii_digit c)
        \<and> v = (if [c] = str ''-'' then - 1 else 1) * digits_value ds"
        using True ds Cons by (auto simp add: str_def split: if_splits)
      then show ?R by blast
    next
      assume ?R
      then obtain sg ds' where r: "text = sg @ ds'" "sg = [] \<or> sg = str ''+'' \<or> sg = str ''-''"
        "ds' \<noteq> []" "\<forall>c \<in> set ds'. is_ascii_digit c"
        "v = (if sg = str ''-'' then - 1 else 1) * digits_value ds'" by blast
      have "sg \<noteq> []"
      proof
        assume "sg = []"
        with r(1,3) Cons have "c \<in> set ds'" by auto
        with r(4) nd show False by blast
      qed
      with r(1,2) Cons have sg: "sg = [c]" and ds': "ds' = ds" by (auto simp add: str_def)
      have "scan_digits ds 0 = Some (digits_value ds)"
        using r(4) ds' by (simp add: scan_digits_digits)
      then show ?L
        using r(3,5) sg ds' True unfolding Cons parse_signed [OF True]
        by (auto simp add: str_def)
    qed
  next
    case False
    then have ns: "text \<noteq> []" "hd text \<noteq> cp CHR ''+''" "hd text \<noteq> cp CHR ''-''"
      using Cons by auto
    show ?thesis
    proof
      assume ?L
      then have "scan_digits text 0 = Some v"
        unfolding parse_unsigned [OF ns] by (auto split: option.splits)
      then have "(\<forall>c \<in> set text. is_ascii_digit c)" "v = digits_value text"
        by (simp_all add: scan_digits_digits)
      then have "text = [] @ text \<and> ([] = [] \<or> [] = str ''+'' \<or> [] = str ''-'') \<and> text \<noteq> []
        \<and> (\<forall>c \<in> set text. is_ascii_digit c)
        \<and> v = (if [] = str ''-'' then - 1 else 1) * digits_value text"
        using ns(1) by (simp add: str_def)
      then show ?R by blast
    next
      assume ?R
      then obtain sg ds' where r: "text = sg @ ds'" "sg = [] \<or> sg = str ''+'' \<or> sg = str ''-''"
        "ds' \<noteq> []" "\<forall>c \<in> set ds'. is_ascii_digit c"
        "v = (if sg = str ''-'' then - 1 else 1) * digits_value ds'" by blast
      have "sg = []"
        using r(1,2) Cons False by (auto simp add: str_def)
      with r have "scan_digits text 0 = Some v"
        by (simp add: scan_digits_digits str_def)
      then show ?L unfolding parse_unsigned [OF ns] by simp
    qed
  qed
qed

lemma parse_int_strict_rejects:
  "fst (snd (parse_int_strict text line_no)) \<or> snd (parse_int_strict text line_no) = (False, 0)"
  by (auto simp add: parse_int_strict_def Let_def split: option.splits)

lemma parse_int_strict_non_digit:
  assumes "\<not> is_ascii_digit c" "pre \<noteq> [] \<or> (c \<noteq> cp CHR ''+'' \<and> c \<noteq> cp CHR ''-'')"
  shows "snd (parse_int_strict (pre @ c # rest) line_no) = (False, 0)"
proof -
  have "snd (parse_int_strict (pre @ c # rest) line_no) \<noteq> (True, v)" for v
  proof
    assume "snd (parse_int_strict (pre @ c # rest) line_no) = (True, v)"
    then obtain sg ds where r: "pre @ c # rest = sg @ ds"
      "sg = [] \<or> sg = str ''+'' \<or> sg = str ''-''" "ds \<noteq> []" "\<forall>c \<in> set ds. is_ascii_digit c"
      unfolding parse_int_strict_accepts by blast
    have "c \<notin> set ds" using r(4) assms(1) by blast
    moreover have "c \<in> set ds"
    proof (cases "sg = []")
      case True
      with r(1) have "ds = pre @ c # rest" by simp
      then show ?thesis by simp
    next
      case False
      with r(2) obtain s where sg: "sg = [s]" "s = cp CHR ''+'' \<or> s = cp CHR ''-''"
        by (auto simp add: str_def)
      show ?thesis
      proof (cases pre)
        case Nil
        with r(1) sg have "c = s" by simp
        with assms(2) Nil sg(2) show ?thesis by simp
      next
        case (Cons p pre')
        with r(1) sg have "ds = pre' @ c # rest" by simp
        then show ?thesis by simp
      qed
    qed
    ultimately show False by blast
  qed
  then show ?thesis
    using parse_int_strict_rejects [of "pre @ c # rest" line_no]
    by (cases "snd (parse_int_strict (pre @ c # rest) line_no)") auto
qed

lemma parse_int_strict_sign_only:
  "snd (parse_int_strict (str ''+'') line_no) = (False, 0)"
  "snd (parse_int_strict (str ''-'') line_no) = (False, 0)"
  by (simp_all add: parse_int_strict_def str_def)

text \<open>
  Claim C7. The strict integer parser succeeds with value \<open>v\<close> exactly on the lines made of
  an optional single \<open>+\<close> or \<open>-\<close> followed by one or more ASCII digits, \<open>v\<close> being the fold
  \<open>value * 10 + digit\<close> over the digit run with the sign applied at the end; every other line
  yields \<open>(False, 0)\<close>: a sign alone, and any line with a character that is not a digit
  (and not the leading sign), whatever follows that character.
\<close>

theorem parse_int_strict_grammar:
  "(snd (parse_int_strict text line_no) = (True, v) \<longleftrightarrow>
      (\<exists>sg ds. text = sg @ ds \<and> (sg = [] \<or> sg = str ''+'' \<or> sg = str ''-'') \<and> ds \<noteq> []
         \<and> (\<forall>c \<in> set ds. is_ascii_digit c)
         \<and> v = (if sg = str ''-'' then - 1 else 1) * digits_value ds))
   \<and> (fst (snd (parse_int_strict text line_no)) \<or> snd (parse_int_strict text line_no) = (False, 0))
   \<and> snd (parse_int_strict (str ''+'') line_no) = (False, 0)
   \<and> snd (parse_int_strict (str ''-'') line_no) = (False, 0)
   \<and> (\<not> is_ascii_digit c \<and> (pre \<noteq> [] \<or> (c \<noteq> cp CHR ''+'' \<and> c \<noteq> cp CHR ''-'')) \<longrightarrow>
        snd (parse_int_strict (pre @ c # rest) line_no) = (False, 0))"
  using parse_int_strict_accepts [of "text" line_no v] parse_int_strict_rejects [of "text" line_no]
    parse_int_strict_sign_only [of line_no] parse_int_strict_non_digit [of c pre rest line_no]
  by blast

theorem parse_int_strict_grammar_witness:
  "snd (parse_int_strict (str ''-042'') 1) = (True, - 42)
   \<and> list_all is_ascii_digit (str ''042'') \<and> digits_value (str ''042'') = 42
   \<and> \<not> is_ascii_digit (cp CHR ''.'') \<and> str ''12'' \<noteq> []
   \<and> snd (parse_int_strict (str ''12'' @ cp CHR ''.'' # str ''3'') 1) = (False, 0)"
  using parse_int_strict_grammar [of "str ''-042''" 1 "- 42" "cp CHR ''.''" "str ''12''" "str ''3''"]
  by (simp add: is_ascii_digit_def digits_value_def str_def parse_int_strict_def)

section \<open>Properties of compute_statistics.py\<close>

subsection \<open>mode\<close>

lemma dict_get_update:
  "dict_get (AList.update k v d) k' dflt = (if k' = k then v else dict_get d k' dflt)"
  by (simp add: dict_get_def update_conv')

lemma freq_fold:
  assumes "distinct (map fst d)"
  shows "distinct (map fst (foldl (\<lambda>freq value. AList.update value (dict_get freq value 0 + 1) freq) d xs))
    \<and> fst ` set (foldl (\<lambda>freq value. AList.update value (dict_get freq value 0 + 1) freq) d xs)
          = fst ` set d \<union> set xs
    \<and> (\<forall>k. dict_get (foldl (\<lambda>freq value. AList.update value (dict_get freq value 0 + 1) freq) d xs) k 0
          = dict_get d k (0::int) + int (count_list xs k))"
  using assms
proof (induction xs arbitrary: d)
  case Nil
  then show ?case by simp
next
  case (Cons x xs)
  let ?d = "AList.update x (dict_get d x 0 + 1) d"
  have "distinct (map fst ?d)" using Cons.prems by (rule distinct_update)
  from Cons.IH [OF this] show ?case
    by (auto simp add: dom_update dict_get_update)
qed

lemma freq_table_entries:
  "distinct (map fst (freq_table values))"
  "set (freq_table values) = (\<lambda>v. (v, int (count_list values v))) ` set values"
proof -
  let ?f = "freq_table values"
  from freq_fold [of "[]" "values"]
  have d: "distinct (map fst ?f)" and keys: "fst ` set ?f = set values"
    and get: "\<And>k. dict_get ?f k 0 = int (count_list values k)"
    by (simp_all add: freq_table_def dict_get_def)
  show "distinct (map fst ?f)" by (rule d)
  have entry: "(v, c) \<in> set ?f \<longleftrightarrow> v \<in> set values \<and> c = int (count_list values v)" for v c
  proof
    assume m: "(v, c) \<in> set ?f"
    then have "map_of ?f v = Some c" using d by simp
    then have "dict_get ?f v 0 = c" by (simp add: dict_get_def)
    with get [of v] m keys show "v \<in> set values \<and> c = int (count_list values v)"
      by force
  next
    assume a: "v \<in> set values \<and> c = int (count_list values v)"
    with keys obtain c' where m: "(v, c') \<in> set ?f" by force
    then have "map_of ?f v = Some c'" using d by simp
    then have "dict_get ?f v 0 = c'" by (simp add: dict_get_def)
    with get [of v] a m show "(v, c) \<in> set ?f" by simp
  qed
  then show "set ?f = (\<lambda>v. (v, int (count_list values v))) ` set values"
    by (auto simp add: image_iff)
qed

lemma py_max_Max: "xs \<noteq> [] \<Longrightarrow> py_max xs = Inr (Max (set xs))"
proof (cases xs)
  case Nil
  assume "xs \<noteq> []"
  with Nil show ?thesis by simp
next
  case (Cons x ys)
  have "foldl max x ys = fold max ys x"
    by (simp add: foldl_conv_fold max.commute)
  moreover have "Max (set (x # ys)) = fold max ys x" by (rule Max.set_eq_fold)
  ultimately show ?thesis using Cons by (simp del: set_simps)
qed

lemma modes_fold:
  "foldl (\<lambda>modes (value, n). if n = mx then modes @ [value] else modes) acc freq
     = acc @ map fst (filter (\<lambda>(v, n). n = mx) freq)"
  by (induction freq arbitrary: acc) auto

lemma mode_examples:
  "mode [1, 1, 2, 2, 3] = Inr ([1, 2], 2)" "mode [1, 2, 3] = Inr ([], 1)"
  by (simp_all add: mode_def freq_table_def dict_get_def)

lemma mode_nonempty:
  assumes "values \<noteq> []"
  shows "\<exists>ms c. mode values = Inr (ms, c)
     \<and> (if max_frequency values \<le> 1 then ms = [] \<and> c = 1
         else sorted ms \<and> distinct ms \<and> c = max_frequency values
              \<and> set ms = {v \<in> set values. int (count_list values v) = max_frequency values})"
proof -
  let ?f = "freq_table values"
  let ?mx = "max_frequency values"
  note e = freq_table_entries [of "values"]
  have "set ?f \<noteq> {}" using e(2) assms by simp
  then have ne: "map snd ?f \<noteq> []" by auto
  have "set (map snd ?f) = (\<lambda>v. int (count_list values v)) ` set values"
    using e(2) by (simp add: image_image)
  then have mx: "py_max (map snd ?f) = Inr ?mx"
    using py_max_Max [OF ne] by (simp add: max_frequency_def)
  let ?ms = "map fst (filter (\<lambda>(v, n). n = ?mx) ?f)"
  have run: "mode values = Inr (if ?mx \<le> 1 then ([], 1) else (sort ?ms, ?mx))"
    by (simp add: mode_def Let_def mx modes_fold)
  have d: "distinct ?ms" using e(1) by (rule distinct_map_filter)
  have s: "set ?ms = {v \<in> set values. int (count_list values v) = ?mx}"
    using e(2) by (auto simp add: image_iff)
  show ?thesis
  proof (cases "?mx \<le> 1")
    case True
    then show ?thesis using run by simp
  next
    case False
    then show ?thesis using run d s by simp
  qed
qed

text \<open>
  Claim C2. On a non-empty list \<open>mode\<close> builds the table that maps each value to its number
  of occurrences; when the highest count is at most 1 it returns the empty list of modes, and
  otherwise exactly the values whose count is the highest, sorted ascending and without
  repetition, together with that count; \<open>mode([1,1,2,2,3])\<close> is \<open>([1,2], 2)\<close> and
  \<open>mode([1,2,3])\<close> has no mode.
\<close>

theorem mode_tied_maxima:
  "(values \<noteq> [] \<longrightarrow>
      (\<exists>ms c. mode values = Inr (ms, c)
         \<and> (if max_frequency values \<le> 1 then ms = [] \<and> c = 1
             else sorted ms \<and> distinct ms \<and> c = max_frequency values
                  \<and> set ms = {v \<in> set values. int (count_list values v) = max_frequency values})))
   \<and> distinct (map fst (freq_table values))
   \<and> set (freq_table values) = (\<lambda>v. (v, int (count_list values v))) ` set values
   \<and> mode [1, 1, 2, 2, 3] = Inr ([1, 2], 2) \<and> mode [1, 2, 3] = Inr ([], 1)"
  using mode_nonempty [of "values"] freq_table_entries [of "values"] mode_examples
  by blast

theorem mode_tied_maxima_witness:
  "[3, 1, 3, 1, 2 :: real] \<noteq> [] \<and> mode [3, 1, 3, 1, 2] = Inr ([1, 3], 2)
   \<and> freq_table [3, 1, 3, 1, 2] = [(3, 2), (1, 2), (2, 1)]"
  using mode_tied_maxima [of "[3, 1, 3, 1, 2]"]
  by (simp add: mode_def freq_table_def dict_get_def)

subsection \<open>median\<close>

lemma py_index_nat:
  "k < length xs \<Longrightarrow> py_index xs (int k) = Inr (xs ! k)"
  by (simp add: py_index_def)

lemma median_mid_index:
  assumes "k = length values div 2" "values \<noteq> []"
  shows "py_index (sort values) (int (length (sort values)) div 2) = Inr (sort values ! k)"
proof -
  have "k < length (sort values)" using assms by simp
  then have "py_index (sort values) (int k) = Inr (sort values ! k)" by (rule py_index_nat)
  moreover have "int (length (sort values)) div 2 = int k" using assms(1) by simp
  ultimately show ?thesis by (simp only:)
qed

lemma median_low_index:
  assumes "k = length values div 2 - 1" "values \<noteq> []"
  shows "py_index (sort values) (int (length (sort values)) div 2 - 1) = Inr (sort values ! k)"
proof -
  have len: "2 \<le> length values \<or> length values = 1"
    using assms(2) by (cases "values"; cases "tl values"; auto)
  show ?thesis
  proof (cases "length values = 1")
    case True
    then have k: "k = 0" using assms(1) by simp
    have "int (length (sort values)) div 2 - 1 = - 1" using True by simp
    then show ?thesis using True k by (simp add: py_index_def)
  next
    case False
    with len have l2: "2 \<le> length values" by simp
    have "k < length (sort values)" using assms(1) l2 by simp
    then have "py_index (sort values) (int k) = Inr (sort values ! k)" by (rule py_index_nat)
    moreover have "int (length (sort values)) div 2 - 1 = int k"
      using assms(1) l2 by (simp add: of_nat_diff)
    ultimately show ?thesis by (simp only:)
  qed
qed

lemma median_odd:
  assumes "odd (length values)"
  shows "median values = Inr (Fin (sort values ! (length values div 2)))"
proof -
  have ne: "values \<noteq> []" using assms by auto
  have m: "int (length (sort values)) mod 2 = 1" using assms by (simp; presburger)
  show ?thesis
    unfolding median_def Let_def
    by (simp only: m median_mid_index [OF refl ne] simp_thms if_True map_sum.simps id_apply)
qed

lemma median_even:
  assumes "even (length values)" "values \<noteq> []"
  shows "median values =
           fdiv (fadd (Fin (sort values ! (length values div 2 - 1)))
                      (Fin (sort values ! (length values div 2)))) (Fin 2)"
proof -
  have m: "int (length (sort values)) mod 2 \<noteq> 1" using assms(1) by (simp; presburger)
  show ?thesis
    unfolding median_def Let_def
    by (simp only: m median_mid_index [OF refl assms(2)] median_low_index [OF refl assms(2)]
        simp_thms if_False sum.case)
qed

text \<open>\<open>(lo + hi) / 2.0\<close>: the sum is rounded, then its half is; an infinite sum stays.\<close>

lemma halved_sum:
  "fdiv (fadd (Fin lo) (Fin hi)) (Fin 2) =
     Inr (case round64 (lo + hi) of
            Fin s \<Rightarrow> round64 (s / 2) | PInf \<Rightarrow> PInf | NInf \<Rightarrow> NInf | NaN \<Rightarrow> NaN)"
  by (cases "round64 (lo + hi)") simp_all

lemma median_examples:
  "median [1, 2, 3] = Inr (Fin 2)" "median [1, 2, 3, 4] = Inr (Fin 2.5)"
  by (simp_all add: median_def py_index_def round64_numeral round64_numeral_half)

text \<open>
  Claim C3, refuted as worded. The two middle elements are added before the sum is halved,
  and the sum of two floats can exceed the largest float: the list \<open>[2 ^ 1023, 2 ^ 1023]\<close>
  holds a float twice, the average of its two middle elements is that float, and \<open>median\<close>
  returns the positive infinity.
\<close>

theorem median_overflows:
  "median [2 ^ 1023, 2 ^ 1023] = Inr PInf \<and> representable (2 ^ 1023)
   \<and> median [2 ^ 1023, 2 ^ 1023] \<noteq> Inr (Fin ((2 ^ 1023 + 2 ^ 1023) / 2))"
proof -
  define a :: real where "a = 2 ^ 1023"
  have s: "sort [a, a] = [a, a]" by simp
  have r: "round64 (a + a) = PInf" unfolding a_def by (rule round64_2_1024)
  then have r2: "round64 (2 * a) = PInf" by (simp only: mult_2)
  have "median [a, a] = Inr PInf"
    by (simp add: median_def py_index_def r2)
  then show ?thesis
    unfolding a_def using round64_2_1023 by (simp only: representable_def) simp
qed

text \<open>
  Claim C3, amended. On a non-empty list \<open>median\<close> returns the middle element of the list
  sorted ascending, unchanged, when the count is odd. When the count is even it returns
  the binary64 result of \<open>(lo + hi) / 2.0\<close> for the two middle elements: the sum rounded,
  then halved and rounded, and an infinity when the sum overflows. This is the average of
  the two middle elements whenever their sum and its half are binary64 values. \<open>sort\<close>
  yields a sorted permutation of the list; the median of \<open>[1,2,3]\<close> is \<open>2.0\<close> and that of
  \<open>[1,2,3,4]\<close> is \<open>2.5\<close>.
\<close>

theorem median_middle:
  "(values \<noteq> [] \<and> odd (length values) \<longrightarrow>
      median values = Inr (Fin (sort values ! (length values div 2))))
   \<and> (values \<noteq> [] \<and> even (length values) \<longrightarrow>
      median values =
        Inr (case round64 (sort values ! (length values div 2 - 1)
                             + sort values ! (length values div 2)) of
               Fin s \<Rightarrow> round64 (s / 2) | PInf \<Rightarrow> PInf | NInf \<Rightarrow> NInf | NaN \<Rightarrow> NaN))
   \<and> (values \<noteq> [] \<and> even (length values)
        \<and> representable (sort values ! (length values div 2 - 1)
                           + sort values ! (length values div 2))
        \<and> representable ((sort values ! (length values div 2 - 1)
                           + sort values ! (length values div 2)) / 2) \<longrightarrow>
      median values =
        Inr (Fin ((sort values ! (length values div 2 - 1)
                    + sort values ! (length values div 2)) / 2)))
   \<and> sorted (sort values) \<and> mset (sort values) = mset values
   \<and> median [1, 2, 3] = Inr (Fin 2) \<and> median [1, 2, 3, 4] = Inr (Fin 2.5)"
proof (intro conjI impI)
  assume "values \<noteq> [] \<and> odd (length values)"
  then show "median values = Inr (Fin (sort values ! (length values div 2)))"
    using median_odd [of "values"] by simp
next
  assume "values \<noteq> [] \<and> even (length values)"
  then have "even (length values)" "values \<noteq> []" by simp_all
  from median_even [OF this]
  show "median values =
        Inr (case round64 (sort values ! (length values div 2 - 1)
                             + sort values ! (length values div 2)) of
               Fin s \<Rightarrow> round64 (s / 2) | PInf \<Rightarrow> PInf | NInf \<Rightarrow> NInf | NaN \<Rightarrow> NaN)"
    by (simp only: halved_sum)
next
  let ?s = "sort values ! (length values div 2 - 1) + sort values ! (length values div 2)"
  assume a: "values \<noteq> [] \<and> even (length values) \<and> representable ?s \<and> representable (?s / 2)"
  then have "median values = fdiv (round64 ?s) (Fin 2)"
    using median_even [of "values"] by simp
  also have "\<dots> = Inr (round64 (?s / 2))" using a by (simp add: representable_def)
  also have "\<dots> = Inr (Fin (?s / 2))" using a by (simp only: representable_def)
  finally show "median values = Inr (Fin (?s / 2))" .
qed (simp_all add: median_examples)

theorem median_middle_witness:
  "[5, 1, 4 :: real] \<noteq> [] \<and> odd (length [5, 1, 4 :: real]) \<and> median [5, 1, 4] = Inr (Fin 4)
   \<and> even (length [5, 1, 4, 2 :: real]) \<and> representable (2 + 4) \<and> representable ((2 + 4) / 2)
   \<and> median [5, 1, 4, 2] = Inr (Fin 3)"
  using median_middle [of "[5, 1, 4]"] median_middle [of "[5, 1, 4, 2]"]
  by (simp add: representable_def round64_numeral)

subsection \<open>mean, variance, std_deviation\<close>

lemma length_as_float:
  "values \<noteq> [] \<Longrightarrow> length values < 2 ^ 53 \<Longrightarrow>
     round64 (real (length values)) = Fin (real (length values)) \<and> 0 < real (length values)"
  by (simp add: round64_nat)

lemma mean_total_not_NaN:
  "t \<noteq> NaN \<Longrightarrow> foldl (\<lambda>total v. fadd total (Fin v)) t values \<noteq> NaN"
  by (induction "values" arbitrary: t) (simp_all add: fadd_Fin_not_NaN)

lemma mean_not_NaN:
  assumes "values \<noteq> []" "length values < 2 ^ 53"
  shows "\<exists>m. mean values = Inr m \<and> m \<noteq> NaN"
proof -
  have "foldl (\<lambda>total v. fadd total (Fin v)) (Fin 0) values \<noteq> NaN"
    by (rule mean_total_not_NaN) simp
  from fdiv_Fin_not_NaN [OF this, of "real (length values)"] length_as_float [OF assms]
  show ?thesis by (simp add: mean_def)
qed

lemma variance_total_nonneg:
  "m \<noteq> NaN \<Longrightarrow> nonneg_float t \<Longrightarrow>
     nonneg_float (foldl (\<lambda>total value. let diff = fsub (Fin value) m
                                         in fadd total (fmul diff diff)) t values)"
  by (induction "values" arbitrary: t)
     (simp_all add: Let_def fadd_nonneg fmul_square_nonneg fsub_Fin_not_NaN)

lemma variance_nonneg:
  assumes "values \<noteq> []" "length values < 2 ^ 53" "m \<noteq> NaN"
  shows "\<exists>v. variance values m = Inr v \<and> nonneg_float v"
proof -
  have "nonneg_float (foldl (\<lambda>total value. let diff = fsub (Fin value) m
                                            in fadd total (fmul diff diff)) (Fin 0) values)"
    using assms(3) by (rule variance_total_nonneg) simp
  from fdiv_Fin_nonneg [OF this, of "real (length values)"] length_as_float [OF assms(1,2)]
  show ?thesis by (simp add: variance_def)
qed

text \<open>Where no operation rounds, the loops compute the sums of the specification.\<close>

lemma mean_total_exact:
  "exact_sums acc values \<Longrightarrow>
     foldl (\<lambda>total v. fadd total (Fin v)) (Fin acc) values = Fin (acc + sum_list values)"
  by (induction "values" arbitrary: acc) (simp_all add: representable_def add.assoc)

lemma variance_total_exact:
  "list_all (\<lambda>x. representable (x - m) \<and> representable ((x - m)\<^sup>2)) values \<Longrightarrow>
   exact_sums acc (map (\<lambda>x. (x - m)\<^sup>2) values) \<Longrightarrow>
     foldl (\<lambda>total value. let diff = fsub (Fin value) (Fin m)
                          in fadd total (fmul diff diff)) (Fin acc) values
       = Fin (acc + (\<Sum>x\<leftarrow>values. (x - m)\<^sup>2))"
  by (induction "values" arbitrary: acc)
     (simp_all add: representable_def fsub_def Let_def power2_eq_square add.assoc)

lemma mean_exact:
  assumes "values \<noteq> []" "length values < 2 ^ 53" "exact_sums 0 values"
    "representable (sum_list values / real (length values))"
  shows "mean values = Inr (Fin (sum_list values / real (length values)))"
  using mean_total_exact [OF assms(3)] length_as_float [OF assms(1,2)] assms(4)
  by (simp add: mean_def representable_def)

lemma variance_exact:
  assumes "values \<noteq> []" "length values < 2 ^ 53"
    "list_all (\<lambda>x. representable (x - m) \<and> representable ((x - m)\<^sup>2)) values"
    "exact_sums 0 (map (\<lambda>x. (x - m)\<^sup>2) values)"
    "representable ((\<Sum>x\<leftarrow>values. (x - m)\<^sup>2) / real (length values))"
  shows "variance values (Fin m) = Inr (Fin ((\<Sum>x\<leftarrow>values. (x - m)\<^sup>2) / real (length values)))"
  using variance_total_exact [OF assms(3,4)] length_as_float [OF assms(1,2)] assms(5)
  by (simp add: variance_def representable_def)

text \<open>
  Claim C4, refuted as worded. The sum of the values can exceed the largest float, and so
  can a squared deviation: the list \<open>[2 ^ 1023, 2 ^ 1023]\<close> holds a float twice, its mean is
  that float and its population variance is zero, and \<open>mean\<close> returns the positive
  infinity, \<open>variance\<close> with that mean the positive infinity, \<open>std_deviation\<close> the same.
\<close>

theorem variance_overflows:
  "mean [2 ^ 1023, 2 ^ 1023] = Inr PInf \<and> variance [2 ^ 1023, 2 ^ 1023] PInf = Inr PInf
   \<and> std_deviation PInf = Inr PInf \<and> representable (2 ^ 1023)
   \<and> (\<Sum>x\<leftarrow>[2 ^ 1023, 2 ^ 1023]. (x - 2 ^ 1023)\<^sup>2) / real (length [2 ^ 1023, 2 ^ 1023 :: real])
       = (0 :: real)"
proof -
  define a :: real where "a = 2 ^ 1023"
  have r: "round64 a = Fin a" "round64 (a + a) = PInf"
    unfolding a_def by (rule round64_2_1023, rule round64_2_1024)
  from r(2) have r2: "round64 (2 * a) = PInf" by (simp only: mult_2)
  have m: "mean [a, a] = Inr PInf"
    by (simp add: mean_def r r2 round64_numeral)
  have v: "variance [a, a] PInf = Inr PInf"
    by (simp add: variance_def fsub_def round64_numeral)
  have z: "(\<Sum>x\<leftarrow>[a, a]. (x - a)\<^sup>2) / real (length [a, a]) = 0" by simp
  from m v z r(1) show ?thesis
    unfolding a_def by (simp only: representable_def std_deviation_def fsqrt.simps simp_thms)
qed

text \<open>
  Claim C4, amended. On a non-empty list of fewer than \<open>2 ^ 53\<close> values \<open>mean\<close> returns a
  float that is not a NaN, \<open>variance\<close> with that mean returns a float that is not negative
  (a finite value of at least zero, or the positive infinity after an overflow), and
  \<open>std_deviation\<close> returns the rounded square root of a finite variance and the positive
  infinity for an infinite one, without raising. Where no operation rounds (the running
  sums, the deviations, their squares and the two quotients are binary64 values) \<open>mean\<close>
  returns the sum divided by the count and \<open>variance\<close> the population variance: the sum of
  the squared deviations divided by the full count \<open>N\<close>.
\<close>

theorem variance_population:
  assumes "values \<noteq> []" "length values < 2 ^ 53"
  shows "(\<exists>m v s. mean values = Inr m \<and> m \<noteq> NaN
            \<and> variance values m = Inr v \<and> nonneg_float v
            \<and> std_deviation v = Inr s \<and> nonneg_float s
            \<and> s = (case v of Fin a \<Rightarrow> round64 (sqrt a) | _ \<Rightarrow> PInf))
         \<and> (exact_sums 0 values
            \<and> representable (sum_list values / real (length values))
            \<and> list_all (\<lambda>x. representable (x - sum_list values / real (length values))
                          \<and> representable ((x - sum_list values / real (length values))\<^sup>2)) values
            \<and> exact_sums 0 (map (\<lambda>x. (x - sum_list values / real (length values))\<^sup>2) values)
            \<and> representable ((\<Sum>x\<leftarrow>values. (x - sum_list values / real (length values))\<^sup>2)
                              / real (length values)) \<longrightarrow>
              mean values = Inr (Fin (sum_list values / real (length values)))
              \<and> variance values (Fin (sum_list values / real (length values)))
                  = Inr (Fin ((\<Sum>x\<leftarrow>values. (x - sum_list values / real (length values))\<^sup>2)
                              / real (length values))))"
proof (intro conjI impI)
  from mean_not_NaN [OF assms] obtain m where m: "mean values = Inr m" "m \<noteq> NaN" by blast
  from variance_nonneg [OF assms m(2)] obtain v where
    v: "variance values m = Inr v" "nonneg_float v" by blast
  from fsqrt_nonneg [OF v(2)] obtain s where
    s: "fsqrt v = Inr s" "nonneg_float s"
       "s = (case v of Fin a \<Rightarrow> round64 (sqrt a) | _ \<Rightarrow> PInf)" by blast
  from m v s show "\<exists>m v s. mean values = Inr m \<and> m \<noteq> NaN
            \<and> variance values m = Inr v \<and> nonneg_float v
            \<and> std_deviation v = Inr s \<and> nonneg_float s
            \<and> s = (case v of Fin a \<Rightarrow> round64 (sqrt a) | _ \<Rightarrow> PInf)"
    unfolding std_deviation_def by blast
next
  let ?m = "sum_list values / real (length values)"
  assume e: "exact_sums 0 values
            \<and> representable ?m
            \<and> list_all (\<lambda>x. representable (x - ?m) \<and> representable ((x - ?m)\<^sup>2)) values
            \<and> exact_sums 0 (map (\<lambda>x. (x - ?m)\<^sup>2) values)
            \<and> representable ((\<Sum>x\<leftarrow>values. (x - ?m)\<^sup>2) / real (length values))"
  from e show "mean values = Inr (Fin ?m)"
    using mean_exact [OF assms] by blast
  from e show "variance values (Fin ?m)
                  = Inr (Fin ((\<Sum>x\<leftarrow>values. (x - ?m)\<^sup>2) / real (length values)))"
    using variance_exact [OF assms, of ?m] by blast
qed

theorem variance_population_witness:
  "[2, 4, 4, 6 :: real] \<noteq> [] \<and> length [2, 4, 4, 6 :: real] < 2 ^ 53
   \<and> exact_sums 0 [2, 4, 4, 6] \<and> representable ((2 + 4 + 4 + 6) / 4)
   \<and> mean [2, 4, 4, 6] = Inr (Fin 4) \<and> variance [2, 4, 4, 6] (Fin 4) = Inr (Fin 2)
   \<and> std_deviation (Fin 2) = Inr (round64 (sqrt 2))"
  using variance_population [of "[2, 4, 4, 6]"]
  by (simp add: mean_def variance_def std_deviation_def fsub_def representable_def
      round64_numeral round64_neg_numeral round64_0)

subsection \<open>The pipeline\<close>

lemma scan_float_lines_numbers:
  "fst (snd (scan_float_lines py content n out nums bad)) =
     nums @ map (float_value py) (filter (valid_float_line py) content)"
  by (induction content arbitrary: n out nums bad)
    (simp_all add: Let_def valid_float_line_def float_value_def split: float_parse.splits)

lemma scan_float_lines_invalid:
  "snd (snd (scan_float_lines py content n out nums bad)) =
     bad + int (length (filter (\<lambda>l. \<not> valid_float_line py l) content))"
  by (induction content arbitrary: n out nums bad)
    (simp_all add: Let_def valid_float_line_def split: float_parse.splits)

lemma read_numbers_from_file_opened:
  assumes "fs filepath = Opened content"
  shows "\<exists>out. read_numbers_from_file py fs filepath =
           (out, Returned (map (float_value py) (filter (valid_float_line py) content),
                           int (length (filter (\<lambda>l. \<not> valid_float_line py l) content))))"
proof -
  obtain out' nums' bad' where r: "scan_float_lines py content 1 [] [] 0 = (out', nums', bad')"
    by (cases "scan_float_lines py content 1 [] [] 0") auto
  from scan_float_lines_numbers [of py content 1 "[]" "[]" 0]
    scan_float_lines_invalid [of py content 1 "[]" "[]" 0] r
  have "nums' = map (float_value py) (filter (valid_float_line py) content)"
    "bad' = int (length (filter (\<lambda>l. \<not> valid_float_line py l) content))"
    by simp_all
  then show ?thesis using assms r by (simp add: read_numbers_from_file_def)
qed

lemma read_numbers_from_file_cases:
  "(\<exists>out code. read_numbers_from_file py fs filepath = (out, SysExit code))
   \<or> (\<exists>out content. fs filepath = Opened content \<and> read_numbers_from_file py fs filepath =
           (out, Returned (map (float_value py) (filter (valid_float_line py) content),
                           int (length (filter (\<lambda>l. \<not> valid_float_line py l) content)))))"
proof (cases "fs filepath")
  case (Opened content)
  then show ?thesis using read_numbers_from_file_opened [of fs filepath content py] by blast
qed (simp_all add: read_numbers_from_file_def)

lemma mean_error: "isl (mean values) \<longleftrightarrow> values = []"
  by (simp add: mean_def fdiv_error round64_length)

lemma variance_error: "isl (variance values a) \<longleftrightarrow> values = []"
  by (simp add: variance_def fdiv_error round64_length)

lemma median_error: "isl (median values) \<longleftrightarrow> values = []"
proof (cases "values = []")
  case True
  then show ?thesis by (simp add: median_def py_index_def)
next
  case ne: False
  show ?thesis
  proof (cases "odd (length values)")
    case True
    from median_odd [OF this] ne show ?thesis by simp
  next
    case False
    then have "even (length values)" by simp
    from median_even [OF this ne] ne show ?thesis by (simp only: fdiv_error) simp
  qed
qed

lemma mode_error: "isl (mode values) \<longleftrightarrow> values = []"
proof (cases "values = []")
  case True
  then show ?thesis by (simp add: mode_def freq_table_def)
next
  case False
  from mode_nonempty [OF False] show ?thesis using False by auto
qed

text \<open>The sum of the squared deviations is not negative, whatever the mean passed, so
  that \<open>math.sqrt\<close> does not raise on the variance.\<close>

lemma variance_total_not_negative:
  "nonneg_float t \<or> t = NaN \<Longrightarrow>
     nonneg_float (foldl (\<lambda>total value. let diff = fsub (Fin value) m
                                         in fadd total (fmul diff diff)) t values)
     \<or> foldl (\<lambda>total value. let diff = fsub (Fin value) m
                            in fadd total (fmul diff diff)) t values = NaN"
proof (induction "values" arbitrary: t)
  case Nil
  then show ?case by simp
next
  case (Cons x xs)
  have "nonneg_float (fadd t (fmul (fsub (Fin x) m) (fsub (Fin x) m)))
        \<or> fadd t (fmul (fsub (Fin x) m) (fsub (Fin x) m)) = NaN"
    using Cons.prems fmul_square_not_negative by (rule fadd_not_negative)
  from Cons.IH [OF this] show ?case by (simp add: Let_def)
qed

lemma variance_not_negative:
  assumes "values \<noteq> []"
  shows "\<exists>v. variance values m = Inr v \<and> (nonneg_float v \<or> v = NaN)"
proof -
  have d: "nonneg_float (round64 (real (length values)))" by (rule round64_nonneg) simp
  have z: "round64 (real (length values)) \<noteq> Fin 0" using assms by (simp add: round64_length)
  have "nonneg_float (Fin 0) \<or> Fin 0 = NaN" by simp
  from fdiv_not_negative [OF variance_total_not_negative [OF this] d z]
  show ?thesis by (simp add: variance_def)
qed

lemma aggregate_nonempty:
  assumes "numbers \<noteq> []"
  shows "\<exists>r. aggregate numbers bad el = Inr r"
proof -
  from mean_error [of numbers] assms obtain m where m: "mean numbers = Inr m"
    by (cases "mean numbers") auto
  from variance_not_negative [OF assms, of m] obtain v where
    v: "variance numbers m = Inr v" "nonneg_float v \<or> v = NaN" by blast
  from fsqrt_not_negative [OF v(2)] obtain s where s: "std_deviation v = Inr s"
    unfolding std_deviation_def by blast
  from median_error [of numbers] assms obtain md where md: "median numbers = Inr md"
    by (cases "median numbers") auto
  from mode_nonempty [OF assms] obtain ms c where mo: "mode numbers = Inr (ms, c)" by blast
  show ?thesis by (simp add: aggregate_def m v s md mo)
qed

lemma main_stats_no_uncaught: "ending (main_stats py argv fs elapsed) \<noteq> Uncaught e"
proof (cases "length argv < 2")
  case True
  then show ?thesis by (simp add: main_stats_def)
next
  case False
  from read_numbers_from_file_cases [of py fs "argv ! 1"] show ?thesis
  proof (elim disjE exE conjE)
    fix out code
    assume "read_numbers_from_file py fs (argv ! 1) = (out, SysExit code)"
    then show ?thesis using False by (simp add: main_stats_def)
  next
    fix out content
    let ?nums = "map (float_value py) (filter (valid_float_line py) content)"
    let ?bad = "int (length (filter (\<lambda>l. \<not> valid_float_line py l) content))"
    assume r: "read_numbers_from_file py fs (argv ! 1) = (out, Returned (?nums, ?bad))"
    show ?thesis
    proof (cases "?nums = []")
      case True
      then show ?thesis using False r by (simp add: main_stats_def Let_def)
    next
      case ne: False
      from aggregate_nonempty [OF ne, of ?bad elapsed] obtain res where
        "aggregate ?nums ?bad elapsed = Inr res" by blast
      then show ?thesis using False r ne by (simp add: main_stats_def Let_def)
    qed
  qed
qed

lemma main_stats_no_data:
  assumes "2 \<le> length argv" "fs (argv ! 1) = Opened content"
    "\<forall>l \<in> set content. \<not> valid_float_line py l"
  shows "\<exists>out. main_stats py argv fs elapsed =
           \<lparr>console = out @ [no_data_report py (int (length content)) elapsed],
            results_file = Some (no_data_report py (int (length content)) elapsed),
            ending = Exited 0\<rparr>"
proof -
  have f: "filter (valid_float_line py) content = []"
    "filter (\<lambda>l. \<not> valid_float_line py l) content = content"
    using assms(3) by (simp_all add: filter_empty_conv)
  from read_numbers_from_file_opened [of fs "argv ! 1" content py, OF assms(2)] obtain out where
    "read_numbers_from_file py fs (argv ! 1) = (out, Returned ([], int (length content)))"
    unfolding f by auto
  then show ?thesis using assms(1) by (simp add: main_stats_def Let_def)
qed

text \<open>
  Claim C9. No run of the statistics tool ends in an exception of an aggregator: when every
  line is invalid the run prints and writes the report "No valid data to process." with the
  count of invalid lines and exits with status 0, and otherwise the aggregators are applied
  to a non-empty list, on which none of them raises. \<open>mean\<close>, \<open>median\<close>, \<open>mode\<close> and
  \<open>variance\<close> raise on the empty list and only there.
\<close>

theorem stats_guard:
  "ending (main_stats py argv fs elapsed) \<noteq> Uncaught e
   \<and> (2 \<le> length argv \<and> fs (argv ! 1) = Opened content
        \<and> (\<forall>l \<in> set content. \<not> valid_float_line py l) \<longrightarrow>
        (\<exists>out. main_stats py argv fs elapsed =
           \<lparr>console = out @ [no_data_report py (int (length content)) elapsed],
            results_file = Some (no_data_report py (int (length content)) elapsed),
            ending = Exited 0\<rparr>))
   \<and> (isl (mean values) \<longleftrightarrow> values = [])
   \<and> (isl (median values) \<longleftrightarrow> values = [])
   \<and> (isl (mode values) \<longleftrightarrow> values = [])
   \<and> (isl (variance values a) \<longleftrightarrow> values = [])"
  using main_stats_no_uncaught [of py argv fs elapsed e]
    main_stats_no_data [of argv fs content py elapsed]
    mean_error [of "values"] median_error [of "values"] mode_error [of "values"]
    variance_error [of "values" a]
  by blast

theorem stats_guard_witness:
  "results_file (main_stats whole_floats [str ''compute_statistics.py'', str ''data.txt'']
       (only_file [str ''abc'' @ [10], [10]]) 0)
     = Some (no_data_report whole_floats 2 0)
   \<and> ending (main_stats whole_floats [str ''compute_statistics.py'', str ''data.txt'']
       (only_file [str ''abc'' @ [10], [10]]) 0) = Exited 0
   \<and> \<not> valid_float_line whole_floats (str ''abc'' @ [10])
   \<and> \<not> valid_float_line whole_floats [10]"
proof -
  have v: "\<not> valid_float_line whole_floats (str ''abc'' @ [10])"
    "\<not> valid_float_line whole_floats [10]"
    by (simp_all add: valid_float_line_def whole_floats_def strip_def isspace_def str_def)
  from stats_guard [of whole_floats "[str ''compute_statistics.py'', str ''data.txt'']"
      "only_file [str ''abc'' @ [10], [10]]" 0 ValueError "[str ''abc'' @ [10], [10]]" "[]"
      "Fin 0"] v
  obtain out where
    "main_stats whole_floats [str ''compute_statistics.py'', str ''data.txt'']
       (only_file [str ''abc'' @ [10], [10]]) 0 =
       \<lparr>console = out @ [no_data_report whole_floats 2 0],
        results_file = Some (no_data_report whole_floats 2 0), ending = Exited 0\<rparr>"
    by (auto simp add: only_file_def)
  then show ?thesis using v by simp
qed

section \<open>Properties of word_count.py\<close>

subsection \<open>normalize_word\<close>

lemma normalize_fold:
  "foldl (\<lambda>cleaned_chars ch.
             if isalnum db ch \<or> ch = cp (CHR 0x27) then cleaned_chars @ [lower db ch]
             else cleaned_chars) acc token
     = acc @ map (lower db) (filter (kept db) token)"
  by (induction token arbitrary: acc) (simp_all add: kept_def)

lemma normalize_word_filter:
  "normalize_word db token = concat (map (lower db) (filter (kept db) token))"
  unfolding normalize_word_def normalize_fold by simp

lemma normalize_word_stable:
  assumes "\<forall>c \<in> set token. kept db c \<longrightarrow>
             (\<exists>d. lower db c = [d] \<and> kept db d \<and> lower db d = [d])"
  shows "normalize_word db (normalize_word db token) = normalize_word db token
     \<and> (\<forall>d \<in> set (normalize_word db token). kept db d \<and> lower db d = [d])"
  using assms
proof (induction token)
  case Nil
  then show ?case by (simp add: normalize_word_filter)
next
  case (Cons c token)
  then have IH: "normalize_word db (normalize_word db token) = normalize_word db token"
    "\<forall>d \<in> set (normalize_word db token). kept db d \<and> lower db d = [d]"
    by simp_all
  show ?case
  proof (cases "kept db c")
    case False
    then have "normalize_word db (c # token) = normalize_word db token"
      by (simp add: normalize_word_filter)
    with IH show ?thesis by simp
  next
    case True
    with Cons.prems obtain d where d: "lower db c = [d]" "kept db d" "lower db d = [d]"
      by auto
    have step: "normalize_word db (c # token) = d # normalize_word db token"
      using True d(1) by (simp add: normalize_word_filter)
    have "normalize_word db (d # normalize_word db token)
            = d # normalize_word db (normalize_word db token)"
      using d(2,3) by (simp add: normalize_word_filter)
    with step IH d show ?thesis by simp
  qed
qed

lemma ascii_stable:
  assumes "ascii_conformant db" "c < 128" 
  shows "\<exists>d. lower db c = [d] \<and> d < 128 \<and> (kept db c \<longrightarrow> kept db d) \<and> lower db d = [d]"
proof -
  have lt: "ascii_lower c < 128" using assms(2) by (simp add: ascii_lower_def)
  have idem: "ascii_lower (ascii_lower c) = ascii_lower c" by (simp add: ascii_lower_def)
  have al: "ascii_isalnum c \<Longrightarrow> ascii_isalnum (ascii_lower c)"
    by (auto simp add: ascii_isalnum_def ascii_lower_def)
  have ap: "c = 39 \<Longrightarrow> ascii_lower c = 39" by (simp add: ascii_lower_def)
  from assms lt have "lower db c = [ascii_lower c]" "lower db (ascii_lower c) = [ascii_lower c]"
    "isalnum db c = ascii_isalnum c" "isalnum db (ascii_lower c) = ascii_isalnum (ascii_lower c)"
    by (simp_all add: ascii_conformant_def idem)
  then show ?thesis using lt al ap by (auto simp add: kept_def)
qed

lemma normalize_word_ascii:
  assumes "ascii_conformant db" "\<forall>c \<in> set token. c < 128"
  shows "normalize_word db token
           = map ascii_lower (filter (\<lambda>c. ascii_isalnum c \<or> c = cp (CHR 0x27)) token)"
  using assms(2)
proof (induction token)
  case Nil
  then show ?case by (simp add: normalize_word_filter)
next
  case (Cons c token)
  then have c: "c < 128" by simp
  with assms(1) have "isalnum db c = ascii_isalnum c" "lower db c = [ascii_lower c]"
    by (simp_all add: ascii_conformant_def)
  with Cons show ?case by (simp add: normalize_word_filter kept_def)
qed

lemma ascii_tokens_stable:
  assumes "ascii_conformant db" "\<forall>c \<in> set token. c < 128"
  shows "\<forall>c \<in> set token. kept db c \<longrightarrow>
           (\<exists>d. lower db c = [d] \<and> kept db d \<and> lower db d = [d])"
proof (intro ballI impI)
  fix c
  assume "c \<in> set token" "kept db c"
  with assms(2) ascii_stable [OF assms(1), of c]
  show "\<exists>d. lower db c = [d] \<and> kept db d \<and> lower db d = [d]" by blast
qed

lemma ucd_excerpt_ascii: "ascii_conformant ucd_excerpt"
  by (simp add: ascii_conformant_def ucd_excerpt_def)

text \<open>
  Claim C10 fails as stated: \<open>lower\<close> maps U+0130 to the two characters U+0069 U+0307, the
  second of which is not alphanumeric, so the output of \<open>normalize_word\<close> on that token
  contains a character that is neither alphanumeric nor an apostrophe, and a second pass
  removes it.
\<close>

theorem normalize_word_not_idempotent:
  "normalize_word ucd_excerpt (normalize_word ucd_excerpt [0x130])
     \<noteq> normalize_word ucd_excerpt [0x130]
   \<and> normalize_word ucd_excerpt [0x130] = [0x69, 0x307]
   \<and> normalize_word ucd_excerpt [0x69, 0x307] = [0x69]
   \<and> \<not> isalnum ucd_excerpt 0x307 \<and> 0x307 \<noteq> cp (CHR 0x27)"
  by (simp add: normalize_word_def ucd_excerpt_def ascii_isalnum_def ascii_lower_def)

text \<open>
  Claim C10, amended. For every token \<open>normalize_word\<close> returns the lower-case forms of the
  kept characters (the alphanumeric ones and the apostrophe) in their order. When every kept
  character of the token has a one-character lower-case form that is itself kept and is its
  own lower-case form, and in particular when the token is ASCII, \<open>normalize_word\<close> is
  idempotent on the token and its output contains only such characters; on an ASCII token
  the output is made of the digits, the letters \<open>a\<close>..\<open>z\<close> and the apostrophe.
\<close>

theorem normalize_word_idempotent_stable:
  "normalize_word db token = concat (map (lower db) (filter (kept db) token))
   \<and> ((\<forall>c \<in> set token. kept db c \<longrightarrow> (\<exists>d. lower db c = [d] \<and> kept db d \<and> lower db d = [d]))
        \<or> (ascii_conformant db \<and> (\<forall>c \<in> set token. c < 128)) \<longrightarrow>
        normalize_word db (normalize_word db token) = normalize_word db token
        \<and> (\<forall>d \<in> set (normalize_word db token). kept db d \<and> lower db d = [d]))
   \<and> (ascii_conformant db \<and> (\<forall>c \<in> set token. c < 128) \<longrightarrow>
        normalize_word db token
          = map ascii_lower (filter (\<lambda>c. ascii_isalnum c \<or> c = cp (CHR 0x27)) token))"
proof (intro conjI impI)
  show "normalize_word db token = concat (map (lower db) (filter (kept db) token))"
    by (rule normalize_word_filter)
next
  assume "(\<forall>c \<in> set token. kept db c \<longrightarrow> (\<exists>d. lower db c = [d] \<and> kept db d \<and> lower db d = [d]))
        \<or> (ascii_conformant db \<and> (\<forall>c \<in> set token. c < 128))"
  then have st: "\<forall>c \<in> set token. kept db c \<longrightarrow>
                   (\<exists>d. lower db c = [d] \<and> kept db d \<and> lower db d = [d])"
  proof
    assume "ascii_conformant db \<and> (\<forall>c \<in> set token. c < 128)"
    then show ?thesis using ascii_tokens_stable [of db token] by simp
  qed
  from normalize_word_stable [OF st]
  show "normalize_word db (normalize_word db token) = normalize_word db token"
    and "\<forall>d \<in> set (normalize_word db token). kept db d \<and> lower db d = [d]"
    by simp_all
next
  assume "ascii_conformant db \<and> (\<forall>c \<in> set token. c < 128)"
  then show "normalize_word db token
          = map ascii_lower (filter (\<lambda>c. ascii_isalnum c \<or> c = cp (CHR 0x27)) token)"
    using normalize_word_ascii [of db token] by simp
qed

theorem normalize_word_idempotent_stable_witness:
  "ascii_conformant ucd_excerpt \<and> list_all (\<lambda>c. c < 128) (str ''Hello,'')
   \<and> normalize_word ucd_excerpt (str ''Hello,'') = str ''hello''
   \<and> normalize_word ucd_excerpt (normalize_word ucd_excerpt (str ''Hello,''))
       = normalize_word ucd_excerpt (str ''Hello,'')"
proof -
  have a: "\<forall>c \<in> set (str ''Hello,''). c < 128" by (simp add: str_def)
  have l: "list_all (\<lambda>c. c < 128) (str ''Hello,'')" by (simp add: str_def)
  have m: "map ascii_lower (filter (\<lambda>c. ascii_isalnum c \<or> c = cp (CHR 0x27)) (str ''Hello,''))
             = str ''hello''"
    by (simp add: str_def ascii_lower_def ascii_isalnum_def)
  note t = normalize_word_idempotent_stable [of ucd_excerpt "str ''Hello,''"]
  have h: "ascii_conformant ucd_excerpt \<and> (\<forall>c \<in> set (str ''Hello,''). c < 128)"
    using ucd_excerpt_ascii a by (rule conjI)
  from t have "normalize_word ucd_excerpt (normalize_word ucd_excerpt (str ''Hello,''))
       = normalize_word ucd_excerpt (str ''Hello,'')"
    using h by blast
  moreover from t have "normalize_word ucd_excerpt (str ''Hello,'')
      = map ascii_lower (filter (\<lambda>c. ascii_isalnum c \<or> c = cp (CHR 0x27)) (str ''Hello,''))"
    using h by blast
  ultimately show ?thesis using ucd_excerpt_ascii l m by (simp only: simp_thms)
qed

subsection \<open>The order of the report\<close>

lemma key_less:
  "(- snd a, fst a) < (- snd b, fst b) \<longleftrightarrow> report_before a b"
  for a b :: "pystr \<times> int"
  by (auto simp add: report_before_def less_prod_def)

lemma sorted_items_mset: "mset (sorted_items freq) = mset freq"
  by (simp add: sorted_items_def)

lemma key_inj:
  "inj_on (\<lambda>item. (- snd item, fst item)) A" for A :: "(pystr \<times> int) set"
  by (auto simp add: inj_on_def prod_eq_iff)

lemma sorted_items_keys:
  assumes "distinct (map fst freq)"
  shows "sorted_wrt (<) (map (\<lambda>item. (- snd item, fst item)) (sorted_items freq))"
proof -
  let ?k = "\<lambda>item :: pystr \<times> int. (- snd item, fst item)"
  have "distinct freq" using assms by (simp add: distinct_map)
  then have "distinct (sorted_items freq)" by (simp add: sorted_items_def)
  then have "distinct (map ?k (sorted_items freq))"
    by (simp add: distinct_map key_inj)
  moreover have "sorted (map ?k (sorted_items freq))"
    unfolding sorted_items_def by (rule sorted_sort_key)
  ultimately show ?thesis by (simp add: strict_sorted_iff)
qed

lemma sorted_items_strict:
  assumes "distinct (map fst freq)"
  shows "sorted_wrt report_before (sorted_items freq)"
proof -
  have "(\<lambda>a b :: pystr \<times> int. (- snd a, fst a) < (- snd b, fst b)) = report_before"
    by (intro ext) (rule key_less)
  with sorted_items_keys [OF assms] show ?thesis
    by (simp only: sorted_wrt_map)
qed

lemma sorted_items_insertion_order:
  assumes "distinct (map fst freq)" "distinct (map fst freq')" "set freq = set freq'"
  shows "sorted_items freq = sorted_items freq'"
proof -
  let ?k = "\<lambda>item :: pystr \<times> int. (- snd item, fst item)"
  have s: "set (sorted_items freq) = set (sorted_items freq')"
    using assms(3) by (simp add: sorted_items_def)
  have "map ?k (sorted_items freq) = map ?k (sorted_items freq')"
  proof (rule sorted_distinct_set_unique)
    show "sorted (map ?k (sorted_items freq))" "sorted (map ?k (sorted_items freq'))"
      using sorted_items_keys [OF assms(1)] sorted_items_keys [OF assms(2)]
      by (simp_all add: strict_sorted_iff)
    show "distinct (map ?k (sorted_items freq))" "distinct (map ?k (sorted_items freq'))"
      using sorted_items_keys [OF assms(1)] sorted_items_keys [OF assms(2)]
      by (simp_all add: strict_sorted_iff)
    show "set (map ?k (sorted_items freq)) = set (map ?k (sorted_items freq'))"
      using s by simp
  qed
  then show ?thesis
    by (rule map_inj_on [where f = ?k]) (rule key_inj)
qed

lemma report_before_total:
  "fst a \<noteq> fst b \<Longrightarrow> report_before a b \<or> report_before b a"
  "\<not> (report_before a b \<and> report_before b a)"
  by (auto simp add: report_before_def)

lemma count_tokens_distinct:
  "distinct (map fst freq) \<Longrightarrow>
     distinct (map fst (fst (snd (count_tokens db tokens n out freq tw ii))))"
  by (induction tokens arbitrary: out freq tw ii) (simp_all add: Let_def distinct_update)

lemma count_lines_distinct:
  "distinct (map fst freq) \<Longrightarrow>
     distinct (map fst (fst (snd (count_lines db content n out freq tw ii))))"
proof (induction content arbitrary: n out freq tw ii)
  case Nil
  then show ?case by simp
next
  case (Cons l content)
  show ?case
  proof (cases "strip l = []")
    case True
    then show ?thesis using Cons by (simp add: Let_def)
  next
    case False
    obtain out' freq' tw' ii' where
      r: "count_tokens db (split (strip l)) n out freq tw ii = (out', freq', tw', ii')"
      by (cases "count_tokens db (split (strip l)) n out freq tw ii") auto
    from count_tokens_distinct [OF Cons.prems, of db "split (strip l)" n out tw ii] r
    have "distinct (map fst freq')" by simp
    from Cons.IH [OF this] show ?thesis using False r by (simp add: Let_def)
  qed
qed

lemma read_and_count_words_distinct:
  "read_and_count_words db fs filepath = (out, Returned (freq, tw, ii)) \<Longrightarrow>
     distinct (map fst freq)"
proof (cases "fs filepath")
  case (Opened content)
  assume a: "read_and_count_words db fs filepath = (out, Returned (freq, tw, ii))"
  obtain o' f' t' i' where r: "count_lines db content 1 [] [] 0 0 = (o', f', t', i')"
    by (cases "count_lines db content 1 [] [] 0 0") auto
  from count_lines_distinct [of "[]" db content 1 "[]" 0 0] r have "distinct (map fst f')"
    by simp
  with a r Opened show ?thesis by (simp add: read_and_count_words_def)
qed (simp_all add: read_and_count_words_def)

lemma word_count_examples:
  "read_and_count_words ucd_excerpt (only_file [str ''a a b'']) p
     = ([], Returned ([(str ''a'', 2), (str ''b'', 1)], 3, 0))"
  "sorted_items [(str ''a'', 2), (str ''b'', 1)] = [(str ''a'', 2), (str ''b'', 1)]"
  "read_and_count_words ucd_excerpt (only_file [str ''b a'']) p
     = ([], Returned ([(str ''b'', 1), (str ''a'', 1)], 2, 0))"
  "sorted_items [(str ''b'', 1), (str ''a'', 1)] = [(str ''a'', 1), (str ''b'', 1)]"
  by (simp_all add: only_file_def read_and_count_words_def strip_def split_def isspace_def str_def
      normalize_word_def ucd_excerpt_def ascii_isalnum_def ascii_lower_def dict_get_def
      sorted_items_def)

lemma format_results_words_lines:
  "format_results_words py freq tw dw ii el =
     join_lines
       ([str ''=== Word Count Results ==='',
         str ''Total valid words counted: '' @ str_int tw,
         str ''Distinct words: '' @ str_int dw,
         str ''Invalid items skipped: '' @ str_int ii,
         [],
         str ''Word -> Frequency'',
         str ''-----------------''] @
        map (\<lambda>(word, n). word @ str '' -> '' @ str_int n) (sorted_items freq) @
        [[], str ''Elapsed time (s): '' @ fixed6 py el])
     @ [10]"
  by (simp add: format_results_words_def)

text \<open>
  Claim C5. The report of the word counter lists the entries of the frequency table in the
  order \<open>sorted_items\<close> gives them, one line \<open>word -> count\<close> each. For a table with distinct
  words (every table the scan builds) that list is a permutation of the table in which each
  entry stands before every later one in the order "higher frequency first, ties by
  ascending word", a strict total order on entries with different words; it depends on the
  entries only, not on the order of insertion. The input \<open>a a b\<close> gives \<open>a -> 2\<close> then
  \<open>b -> 1\<close>, and \<open>b a\<close> gives \<open>a -> 1\<close> then \<open>b -> 1\<close>.
\<close>

theorem report_order:
  "(distinct (map fst freq) \<longrightarrow> sorted_wrt report_before (sorted_items freq))
   \<and> mset (sorted_items freq) = mset freq
   \<and> (distinct (map fst freq) \<and> distinct (map fst freq') \<and> set freq = set freq' \<longrightarrow>
        sorted_items freq = sorted_items freq')
   \<and> (fst a \<noteq> fst b \<longrightarrow> report_before a b \<or> report_before b a)
   \<and> \<not> (report_before a b \<and> report_before b a)
   \<and> (read_and_count_words db fs filepath = (out, Returned (table, words, skipped)) \<longrightarrow>
        distinct (map fst table))
   \<and> format_results_words py freq tw dw ii el =
       join_lines
         ([str ''=== Word Count Results ==='',
           str ''Total valid words counted: '' @ str_int tw,
           str ''Distinct words: '' @ str_int dw,
           str ''Invalid items skipped: '' @ str_int ii,
           [],
           str ''Word -> Frequency'',
           str ''-----------------''] @
          map (\<lambda>(word, n). word @ str '' -> '' @ str_int n) (sorted_items freq) @
          [[], str ''Elapsed time (s): '' @ fixed6 py el])
       @ [10]
   \<and> read_and_count_words ucd_excerpt (only_file [str ''a a b'']) p
       = ([], Returned ([(str ''a'', 2), (str ''b'', 1)], 3, 0))
   \<and> sorted_items [(str ''a'', 2), (str ''b'', 1)] = [(str ''a'', 2), (str ''b'', 1)]
   \<and> read_and_count_words ucd_excerpt (only_file [str ''b a'']) p
       = ([], Returned ([(str ''b'', 1), (str ''a'', 1)], 2, 0))
   \<and> sorted_items [(str ''b'', 1), (str ''a'', 1)] = [(str ''a'', 1), (str ''b'', 1)]"
proof (intro conjI impI)
  show "mset (sorted_items freq) = mset freq" by (rule sorted_items_mset)
  show "\<not> (report_before a b \<and> report_before b a)" by (rule report_before_total)
  show "format_results_words py freq tw dw ii el =
       join_lines
         ([str ''=== Word Count Results ==='',
           str ''Total valid words counted: '' @ str_int tw,
           str ''Distinct words: '' @ str_int dw,
           str ''Invalid items skipped: '' @ str_int ii,
           [],
           str ''Word -> Frequency'',
           str ''-----------------''] @
          map (\<lambda>(word, n). word @ str '' -> '' @ str_int n) (sorted_items freq) @
          [[], str ''Elapsed time (s): '' @ fixed6 py el])
       @ [10]" by (rule format_results_words_lines)
next
  assume "distinct (map fst freq)"
  then show "sorted_wrt report_before (sorted_items freq)" by (rule sorted_items_strict)
next
  assume "distinct (map fst freq) \<and> distinct (map fst freq') \<and> set freq = set freq'"
  then show "sorted_items freq = sorted_items freq'"
    using sorted_items_insertion_order [of freq freq'] by simp
next
  assume "fst a \<noteq> fst b"
  then show "report_before a b \<or> report_before b a" by (rule report_before_total)
next
  assume "read_and_count_words db fs filepath = (out, Returned (table, words, skipped))"
  then show "distinct (map fst table)" by (rule read_and_count_words_distinct)
qed (rule word_count_examples)+

theorem report_order_witness:
  "distinct (map fst [(str ''b'', 1 :: int), (str ''c'', 2), (str ''a'', 1)])
   \<and> sorted_items [(str ''b'', 1), (str ''c'', 2), (str ''a'', 1)]
       = [(str ''c'', 2), (str ''a'', 1), (str ''b'', 1)]
   \<and> sorted_items [(str ''a'', 1), (str ''b'', 1), (str ''c'', 2)]
       = [(str ''c'', 2), (str ''a'', 1), (str ''b'', 1)]
   \<and> sorted_wrt report_before [(str ''c'', 2), (str ''a'', 1), (str ''b'', 1)]"
proof -
  have d: "distinct (map fst [(str ''b'', 1 :: int), (str ''c'', 2), (str ''a'', 1)])"
    "distinct (map fst [(str ''a'', 1 :: int), (str ''b'', 1), (str ''c'', 2)])"
    "set [(str ''b'', 1 :: int), (str ''c'', 2), (str ''a'', 1)]
       = set [(str ''a'', 1), (str ''b'', 1), (str ''c'', 2)]"
    by (auto simp add: str_def)
  have e: "sorted_items [(str ''b'', 1), (str ''c'', 2), (str ''a'', 1)]
       = [(str ''c'', 2), (str ''a'', 1), (str ''b'', 1)]"
    by (simp add: sorted_items_def str_def)
  note t = report_order [of "[(str ''b'', 1), (str ''c'', 2), (str ''a'', 1)]"
      "[(str ''a'', 1), (str ''b'', 1), (str ''c'', 2)]"]
  from t d have "sorted_wrt report_before (sorted_items [(str ''b'', 1), (str ''c'', 2), (str ''a'', 1)])"
    by blast
  moreover from t d have "sorted_items [(str ''b'', 1), (str ''c'', 2), (str ''a'', 1)]
      = sorted_items [(str ''a'', 1), (str ''b'', 1), (str ''c'', 2)]"
    by blast
  ultimately show ?thesis using d(1) e by (simp only: simp_thms)
qed

section \<open>The counters of the three scans\<close>

lemma parse_int_strict_line_no:
  "snd (parse_int_strict t n) = snd (parse_int_strict t m)"
  by (simp add: parse_int_strict_def Let_def split: option.splits prod.splits)

lemma scan_int_lines_step:
  "scan_int_lines (l # content) n out nums bad =
     (if valid_int_line l
      then scan_int_lines content (n + 1) (out @ fst (parse_int_strict (strip l) n))
             (nums @ [int_line_value l]) bad
      else scan_int_lines content (n + 1) (out @ fst (parse_int_strict (strip l) n))
             nums (bad + 1))"
proof -
  obtain msgs ok v where p: "parse_int_strict (strip l) n = (msgs, ok, v)"
    by (cases "parse_int_strict (strip l) n") auto
  from parse_int_strict_line_no [of "strip l" n 0] p
  have "snd (parse_int_strict (strip l) 0) = (ok, v)" by simp
  then have "valid_int_line l = ok" "int_line_value l = v"
    by (simp_all add: valid_int_line_def int_line_value_def)
  with p show ?thesis by (simp add: Let_def)
qed

lemma scan_int_lines_numbers:
  "fst (snd (scan_int_lines content n out nums bad)) =
     nums @ map int_line_value (filter valid_int_line content)"
  by (induction content arbitrary: n out nums bad)
    (simp_all only: scan_int_lines.simps(1) scan_int_lines_step, simp_all)

lemma scan_int_lines_invalid:
  "snd (snd (scan_int_lines content n out nums bad)) =
     bad + int (length (filter (\<lambda>l. \<not> valid_int_line l) content))"
  by (induction content arbitrary: n out nums bad)
    (simp_all only: scan_int_lines.simps(1) scan_int_lines_step, simp_all)

lemma read_numbers_opened:
  assumes "fs filepath = Opened content"
  shows "\<exists>out. read_numbers fs filepath =
           (out, Returned (map int_line_value (filter valid_int_line content),
                           int (length (filter (\<lambda>l. \<not> valid_int_line l) content))))"
proof -
  obtain out' nums' bad' where r: "scan_int_lines content 1 [] [] 0 = (out', nums', bad')"
    by (cases "scan_int_lines content 1 [] [] 0") auto
  from scan_int_lines_numbers [of content 1 "[]" "[]" 0]
    scan_int_lines_invalid [of content 1 "[]" "[]" 0] r
  have "nums' = map int_line_value (filter valid_int_line content)"
    "bad' = int (length (filter (\<lambda>l. \<not> valid_int_line l) content))"
    by simp_all
  then show ?thesis using assms r by (simp add: read_numbers_def)
qed

lemma filter_partition_length:
  "int (length (filter P xs)) + int (length (filter (\<lambda>x. \<not> P x) xs)) = int (length xs)"
  by (induction xs) simp_all

lemma count_tokens_total:
  "fst (snd (snd (count_tokens db tokens n out freq tw ii))) =
     tw + int (length (filter (valid_token db) tokens))"
  by (induction tokens arbitrary: out freq tw ii) (simp_all add: Let_def valid_token_def)

lemma count_tokens_invalid:
  "snd (snd (snd (count_tokens db tokens n out freq tw ii))) =
     ii + int (length (filter (\<lambda>t. \<not> valid_token db t) tokens))"
  by (induction tokens arbitrary: out freq tw ii) (simp_all add: Let_def valid_token_def)

lemma count_lines_step:
  "count_lines db (l # content) n out freq tw ii =
     (if blank_line l then
        count_lines db content (n + 1)
          (out @ [println (str ''[ERROR] Line '' @ str_int n @ str '': '' @
                           str ''empty/blank line. Skipping.'')])
          freq tw (ii + 1)
      else
        count_lines db content (n + 1)
          (fst (count_tokens db (split (strip l)) n out freq tw ii))
          (fst (snd (count_tokens db (split (strip l)) n out freq tw ii)))
          (tw + int (length (filter (valid_token db) (split (strip l)))))
          (ii + int (length (filter (\<lambda>t. \<not> valid_token db t) (split (strip l))))))"
proof -
  obtain o' f' t' i' where r: "count_tokens db (split (strip l)) n out freq tw ii = (o', f', t', i')"
    by (cases "count_tokens db (split (strip l)) n out freq tw ii") auto
  from count_tokens_total [of db "split (strip l)" n out freq tw ii]
    count_tokens_invalid [of db "split (strip l)" n out freq tw ii] r
  have "t' = tw + int (length (filter (valid_token db) (split (strip l))))"
    "i' = ii + int (length (filter (\<lambda>t. \<not> valid_token db t) (split (strip l))))"
    by simp_all
  with r show ?thesis by (simp add: Let_def blank_line_def)
qed

lemma split_blank: "blank_line l \<Longrightarrow> split (strip l) = []"
  by (simp add: blank_line_def split_def)

lemma count_lines_total:
  "fst (snd (snd (count_lines db content n out freq tw ii))) =
     tw + int (length (filter (valid_token db) (tokens_scanned content)))"
proof (induction content arbitrary: n out freq tw ii)
  case Nil
  then show ?case by (simp add: tokens_scanned_def)
next
  case (Cons l content)
  show ?case
    unfolding count_lines_step
    by (simp add: Cons.IH tokens_scanned_def split_blank)
qed

lemma count_lines_invalid:
  "snd (snd (snd (count_lines db content n out freq tw ii))) =
     ii + int (length (filter blank_line content))
        + int (length (filter (\<lambda>t. \<not> valid_token db t) (tokens_scanned content)))"
proof (induction content arbitrary: n out freq tw ii)
  case Nil
  then show ?case by (simp add: tokens_scanned_def)
next
  case (Cons l content)
  show ?case
    unfolding count_lines_step
    by (simp add: Cons.IH tokens_scanned_def split_blank)
qed

lemma read_and_count_words_opened:
  assumes "fs filepath = Opened content"
  shows "\<exists>out freq. read_and_count_words db fs filepath =
           (out, Returned (freq,
              int (length (filter (valid_token db) (tokens_scanned content))),
              int (length (filter blank_line content))
                + int (length (filter (\<lambda>t. \<not> valid_token db t) (tokens_scanned content)))))"
proof -
  obtain o' f' t' i' where r: "count_lines db content 1 [] [] 0 0 = (o', f', t', i')"
    by (cases "count_lines db content 1 [] [] 0 0") auto
  from count_lines_total [of db content 1 "[]" "[]" 0 0]
    count_lines_invalid [of db content 1 "[]" "[]" 0 0] r
  have "t' = int (length (filter (valid_token db) (tokens_scanned content)))"
    "i' = int (length (filter blank_line content))
                + int (length (filter (\<lambda>t. \<not> valid_token db t) (tokens_scanned content)))"
    by simp_all
  then show ?thesis using assms r by (simp add: read_and_count_words_def)
qed

lemma counter_examples:
  "snd (read_numbers_from_file whole_floats
          (only_file [[10], str ''1'' @ [10], [10], str ''2'' @ [10], str ''3'' @ [10]]) [])
     = Returned ([1, 2, 3], 2)"
  "snd (read_numbers
          (only_file [[10], str ''1'' @ [10], [10], str ''2'' @ [10], str ''3'' @ [10]]) [])
     = Returned ([1, 2, 3], 2)"
  by (simp_all add: only_file_def read_numbers_from_file_def read_numbers_def whole_floats_def
      parse_int_strict_def strip_def isspace_def str_def Let_def)

text \<open>
  Claim C6 fails as stated for the word counter: \<open>invalid_items\<close> counts the blank lines as
  well as the tokens that normalise to nothing, so on the two lines \<open>a\<close> and a blank one the
  counters are 1 and 1 while one token was scanned.
\<close>

theorem wordcount_counters_count_blank_lines:
  "snd (read_and_count_words ucd_excerpt (only_file [str ''a'' @ [10], [10]]) [])
     = Returned ([(str ''a'', 1)], 1, 1)
   \<and> tokens_scanned [str ''a'' @ [10], [10]] = [str ''a'']
   \<and> (1 :: int) + 1 \<noteq> int (length (tokens_scanned [str ''a'' @ [10], [10]]))"
  by (simp add: only_file_def read_and_count_words_def tokens_scanned_def strip_def split_def isspace_def
      str_def normalize_word_def ucd_excerpt_def ascii_isalnum_def ascii_lower_def dict_get_def)

text \<open>
  Claim C6, amended. After the scan of a file that could be opened, the statistics reader
  and the conversion reader return a list of numbers and a count of invalid lines that add
  up to the number of lines scanned. The word counter returns \<open>total_words\<close>, the number of
  tokens scanned that are valid, and \<open>invalid_items\<close>, the number of blank lines plus the
  number of tokens scanned that are not valid, so the two add up to the number of tokens
  scanned plus the number of blank lines. An input of two blank lines and three valid
  numeric lines gives three numbers and an invalid count of 2.
\<close>

theorem scan_counters:
  "(fs filepath = Opened content \<longrightarrow>
      (\<exists>out numbers invalid.
          read_numbers_from_file py fs filepath = (out, Returned (numbers, invalid))
          \<and> int (length numbers) + invalid = int (length content))
      \<and> (\<exists>out numbers invalid.
          read_numbers fs filepath = (out, Returned (numbers, invalid))
          \<and> int (length numbers) + invalid = int (length content))
      \<and> (\<exists>out freq words skipped.
          read_and_count_words db fs filepath = (out, Returned (freq, words, skipped))
          \<and> words = int (length (filter (valid_token db) (tokens_scanned content)))
          \<and> skipped = int (length (filter blank_line content))
                + int (length (filter (\<lambda>t. \<not> valid_token db t) (tokens_scanned content)))
          \<and> words + skipped
                = int (length (tokens_scanned content)) + int (length (filter blank_line content))))
   \<and> snd (read_numbers_from_file whole_floats
          (only_file [[10], str ''1'' @ [10], [10], str ''2'' @ [10], str ''3'' @ [10]]) [])
       = Returned ([1, 2, 3], 2)
   \<and> snd (read_numbers
          (only_file [[10], str ''1'' @ [10], [10], str ''2'' @ [10], str ''3'' @ [10]]) [])
       = Returned ([1, 2, 3], 2)"
proof (intro conjI impI)
  assume o: "fs filepath = Opened content"
  from read_numbers_from_file_opened [of fs filepath content py] o
  show "\<exists>out numbers invalid.
          read_numbers_from_file py fs filepath = (out, Returned (numbers, invalid))
          \<and> int (length numbers) + invalid = int (length content)"
    using filter_partition_length [of "valid_float_line py" content] by auto
  from read_numbers_opened [of fs filepath content] o
  show "\<exists>out numbers invalid.
          read_numbers fs filepath = (out, Returned (numbers, invalid))
          \<and> int (length numbers) + invalid = int (length content)"
    using filter_partition_length [of valid_int_line content] by auto
  from read_and_count_words_opened [of fs filepath content db] o
  show "\<exists>out freq words skipped.
          read_and_count_words db fs filepath = (out, Returned (freq, words, skipped))
          \<and> words = int (length (filter (valid_token db) (tokens_scanned content)))
          \<and> skipped = int (length (filter blank_line content))
                + int (length (filter (\<lambda>t. \<not> valid_token db t) (tokens_scanned content)))
          \<and> words + skipped
                = int (length (tokens_scanned content)) + int (length (filter blank_line content))"
    using filter_partition_length [of "valid_token db" "tokens_scanned content"] by auto
qed (rule counter_examples)+

theorem scan_counters_witness:
  "snd (read_and_count_words ucd_excerpt (only_file [str ''a ... b'' @ [10], [10]]) [])
     = Returned ([(str ''a'', 1), (str ''b'', 1)], 2, 2)
   \<and> tokens_scanned [str ''a ... b'' @ [10], [10]] = [str ''a'', str ''...'', str ''b'']
   \<and> filter blank_line [str ''a ... b'' @ [10], [10]] = [[10]]
   \<and> snd (read_numbers (only_file [str ''7'' @ [10], str ''x'' @ [10]]) []) = Returned ([7], 1)"
  using scan_counters [of "only_file [str ''a ... b'' @ [10], [10]]" "[]"
      "[str ''a ... b'' @ [10], [10]]" whole_floats ucd_excerpt]
    scan_counters [of "only_file [str ''7'' @ [10], str ''x'' @ [10]]" "[]"
      "[str ''7'' @ [10], str ''x'' @ [10]]" whole_floats ucd_excerpt]
  by (simp add: only_file_def read_and_count_words_def read_numbers_def tokens_scanned_def blank_line_def
      strip_def split_def isspace_def str_def normalize_word_def ucd_excerpt_def
      ascii_isalnum_def ascii_lower_def dict_get_def parse_int_strict_def Let_def)

section \<open>Console and results file\<close>

lemma to_binary_returns: "\<exists>b. to_binary n = Some (Inr b)"
  using to_binary_nonneg [of n] to_binary_neg [of n] by (cases "0 \<le> n") auto

lemma to_hex_returns: "\<exists>h. to_hex n = Some (Inr h)"
  using to_hex_nonneg [of n] to_hex_neg [of n] by (cases "0 \<le> n") auto

lemma conversion_lines_returns:
  "\<exists>ls. conversion_lines ns = Some (Inr ls) \<and> length ls = length ns"
proof (induction ns)
  case Nil
  then show ?case by simp
next
  case (Cons n ns)
  from to_binary_returns [of n] obtain b where b: "to_binary n = Some (Inr b)" by blast
  from to_hex_returns [of n] obtain h where h: "to_hex n = Some (Inr h)" by blast
  from Cons obtain ls where "conversion_lines ns = Some (Inr ls)" "length ls = length ns"
    by blast
  with b h show ?case by simp
qed

lemma build_report_returns:
  "\<exists>report. build_report py numbers bad elapsed limit = Some (Inr report)"
proof -
  let ?shown = "case limit of None \<Rightarrow> numbers | Some k \<Rightarrow> slice_to numbers k"
  from conversion_lines_returns [of ?shown] obtain ls where
    "conversion_lines ?shown = Some (Inr ls)" by blast
  then show ?thesis by (simp add: build_report_def Let_def)
qed

lemma main_convert_returns: "\<exists>r. main_convert py argv fs elapsed = Some r"
proof (cases "length argv < 2")
  case True
  then show ?thesis by (simp add: main_convert_def)
next
  case False
  obtain out res where r: "read_numbers fs (argv ! 1) = (out, res)"
    by (cases "read_numbers fs (argv ! 1)") auto
  show ?thesis
  proof (cases res)
    case (SysExit code)
    with r False show ?thesis by (simp add: main_convert_def)
  next
    case (Returned p)
    obtain numbers bad where p: "p = (numbers, bad)" by (cases p) auto
    from build_report_returns [of py numbers bad elapsed None] obtain full where
      f: "build_report py numbers bad elapsed None = Some (Inr full)" by blast
    from build_report_returns [of py numbers bad elapsed "Some 15"] obtain capped where
      c: "build_report py numbers bad elapsed (Some 15) = Some (Inr capped)" by blast
    from r False Returned p f c show ?thesis by (simp add: main_convert_def)
  qed
qed

lemma slice_to_15: "slice_to numbers 15 = take 15 numbers"
  by (simp add: slice_to_def)

text \<open>The conversion tool prints the report capped at 15 conversions and writes the full
  one; the statistics tool prints the report it writes.\<close>

lemma main_convert_sinks:
  assumes "main_convert py argv fs elapsed = Some r" "ending r = Completed"
  shows "\<exists>out numbers bad full capped.
           console r = out @ [capped] \<and> results_file r = Some full
           \<and> build_report py numbers bad elapsed None = Some (Inr full)
           \<and> build_report py numbers bad elapsed (Some 15) = Some (Inr capped)"
  using assms
  by (auto simp add: main_convert_def split: if_splits prod.splits exit_or.splits
      option.splits sum.splits) blast

lemma main_stats_sinks:
  assumes "results_file (main_stats py argv fs elapsed) = Some output"
  shows "\<exists>out. console (main_stats py argv fs elapsed) = out @ [output]"
  using assms
  by (auto simp add: main_stats_def Let_def split: if_splits prod.splits exit_or.splits
      sum.splits)

lemma main_wordcount_sinks:
  assumes "results_file (main_wordcount db py argv fs elapsed) = Some output"
  shows "\<exists>out. console (main_wordcount db py argv fs elapsed) = out @ [str ''<class 'str'>'']"
  using assms
  by (auto simp add: main_wordcount_def Let_def split: if_splits prod.splits exit_or.splits)

text \<open>
  Claim C8 says that the word counter prints the full report it writes to its results file.
  Its \<open>main\<close> prints \<open>type(output)\<close> instead: on the input line \<open>a a b\<close> the console
  receives the text \<open><class 'str'>\<close> and nothing else, while the results file receives the
  report.
\<close>

theorem wordcount_console_is_not_report:
  "console (main_wordcount ucd_excerpt whole_floats [str ''word_count.py'', str ''in.txt'']
              (only_file [str ''a a b'' @ [10]]) 0)
     = [str ''<class 'str'>'']
   \<and> results_file (main_wordcount ucd_excerpt whole_floats [str ''word_count.py'', str ''in.txt'']
              (only_file [str ''a a b'' @ [10]]) 0)
     = Some (join_lines
          [str ''=== Word Count Results ==='',
           str ''Total valid words counted: 3'',
           str ''Distinct words: 2'',
           str ''Invalid items skipped: 0'',
           [],
           str ''Word -> Frequency'',
           str ''-----------------'',
           str ''a -> 2'',
           str ''b -> 1'',
           [],
           str ''Elapsed time (s): 0.000000''] @ [10])
   \<and> ending (main_wordcount ucd_excerpt whole_floats [str ''word_count.py'', str ''in.txt'']
              (only_file [str ''a a b'' @ [10]]) 0) = Completed"
  by (simp add: main_wordcount_def only_file_def read_and_count_words_def format_results_words_def
      sorted_items_def strip_def split_def isspace_def str_def normalize_word_def
      ucd_excerpt_def whole_floats_def ascii_isalnum_def ascii_lower_def dict_get_def
      str_int_def dec_digits.simps Let_def)


end
